theory Spec2Isabelle
  imports Complex_Main "HOL-Library.Word"
begin

section \<open>The backtest engine of \<^verbatim>\<open>inv_trader/backtest/engine.pyx\<close>\<close>

text \<open>
  The source file holds one class, \<^verbatim>\<open>BacktestEngine\<close>: its constructor, \<^verbatim>\<open>run\<close>,
  \<^verbatim>\<open>reset\<close>, \<^verbatim>\<open>dispose\<close>, \<^verbatim>\<open>change_strategies\<close> and the log headers. Everything the
  engine drives (the data client, the execution client, the trader and its strategies, the
  portfolio, the account, the test clock, the loggers) is a class of another module that
  is not part of the sources at hand. The embedding therefore keeps the engine's own code
  as written and takes the behaviour of those classes as parameters:

  \<^item> the objects behind the engine form one opaque \<open>world\<close> of type \<open>'w\<close> (they hold
    references to each other, so a call on one may change any of them);
  \<^item> every method call the engine makes on them is a value of the datatype \<open>call\<close>; it is
    appended to the engine's \<open>calls\<close> (the order of the calls is what several properties
    are about) and performed on the world by the parameter \<open>perform\<close>;
  \<^item> what the engine reads back (\<^verbatim>\<open>use_ticks\<close>, \<^verbatim>\<open>data_minute_index\<close>,
    \<^verbatim>\<open>trader.strategies\<close>, the results of \<^verbatim>\<open>get_next_minute_bars\<close>, \<^verbatim>\<open>iterate_ticks\<close>
    and \<^verbatim>\<open>iterate_bars\<close>) are parameters that read the world;
  \<^item> the wall clock (\<^verbatim>\<open>LiveClock.time_now()\<close>) is an input: each reading is an argument;
  \<^item> the test clock is one of those objects. The engine writes it with \<^verbatim>\<open>set_time\<close> and
    never reads it; the objects built with \<^verbatim>\<open>clock=self.test_clock\<close> read it and may
    write it too (the data client does in \<^verbatim>\<open>set_initial_iteration\<close>, by the remark
    "Also sets clock to start time" in \<^verbatim>\<open>run\<close>). Its time is therefore part of the world:
    the engine learns it only through \<^verbatim>\<open>data_client.time_now()\<close> and
    \<^verbatim>\<open>exec_client.time_now()\<close>, in the two assertions of \<^verbatim>\<open>run\<close>;
  \<^item> the loggers are written to and not read back by the code modelled (the lines
    \<^verbatim>\<open>print_log_store\<close> prints are output only);
  \<^item> a call on one of those objects returns: an exception raised inside a class that is
    not at hand is outside the model (\<^verbatim>\<open>Precondition.true\<close> apart, whose \<^verbatim>\<open>ValueError\<close>
    the docstring of \<^verbatim>\<open>run\<close> names).

  Timestamps (\<^verbatim>\<open>datetime\<close>) are integers, a count of microseconds since
  \<^verbatim>\<open>datetime.min\<close>, and time steps (\<^verbatim>\<open>timedelta\<close>) are integers, a count of microseconds
  of either sign. A \<^verbatim>\<open>datetime\<close> lies between \<^verbatim>\<open>datetime.min\<close> and \<^verbatim>\<open>datetime.max\<close>;
  adding a \<^verbatim>\<open>timedelta\<close> that leads outside raises \<^verbatim>\<open>OverflowError\<close>. All timestamps
  are of one kind (UTC), so that comparing them does not raise.
\<close>

type_synonym timestamp = int
type_synonym timedelta = int
type_synonym symbol = string
type_synonym strategy = nat

text \<open>Clock objects by identity: the \<open>n\<close>-th \<^verbatim>\<open>TestClock()\<close> or \<^verbatim>\<open>LiveClock()\<close> made.\<close>

datatype clock_ref = LiveClockRef nat | TestClockRef nat

text \<open>The objects that are handed a clock.\<close>

datatype component =
    LoggerC | TestLoggerC | PortfolioC | DataClientC | ExecClientC | TraderC
  | StrategyC strategy

text \<open>
  The calls the engine makes on the objects it drives. \<open>'k\<close> is a tick, \<open>'b\<close> a bar, \<open>'c\<close>
  what \<^verbatim>\<open>iterate_bars\<close> returns, \<open>'f\<close> a fill model, \<open>'i\<close> an instrument.
\<close>

datatype ('k, 'b, 'c, 'f, 'i) call =
    ClockSetTime timestamp
  | MakeAccount
  | MakePortfolio
  | MakeDataClient "'i list"
  | MakeExecClient "'i list" 'f
  | MakeTrader "strategy list"
  | StrategyChangeClock strategy clock_ref
  | StrategyChangeLogger strategy
  | StrategyIterate strategy timestamp
  | TraderChangeStrategies "strategy list"
  | TraderStart
  | TraderStop
  | TraderReset
  | TraderDispose
  | DataSetInitialIteration timestamp timedelta
  | DataGetNextMinuteBars timestamp
  | DataIterateTicks timestamp
  | DataIterateBars timestamp
  | DataProcessTick 'k
  | DataProcessBars 'c
  | DataReset
  | ExecChangeFillModel 'f
  | ExecProcessBars symbol 'b 'b
  | ExecProcessTick 'k
  | ExecReset

text \<open>
  What the engine writes to its own logger (\<^verbatim>\<open>self.log\<close>, \<^verbatim>\<open>self.logger\<close>) and the
  housekeeping it does on the shared test logger. The lines of a header or footer, and
  what \<^verbatim>\<open>print_log_store\<close> prints, are kept as one entry with the values they print;
  figures read from the operating system (RAM) and the statistics and stored messages
  read back from the portfolio and the test logger are left out.
\<close>

datatype log_entry =
    Info string
  | Debug string
  | EngineHeader
  | InitializedIn timedelta
  | BacktestHeader timestamp timestamp timestamp timedelta string
  | BacktestFooter timestamp timedelta timestamp timestamp timedelta "32 word"
  | ClearLogStore
  | ChangeLogFileName string
  | PrintLogStore

datatype error = ValueError string | IndexError | AssertionError | OverflowError

text \<open>
  \<^verbatim>\<open>datetime.max\<close>, 9999-12-31T23:59:59.999999, in microseconds since \<^verbatim>\<open>datetime.min\<close>
  (3652059 days less one microsecond), and \<^verbatim>\<open>datetime + timedelta\<close>.
\<close>

definition datetime_max :: timestamp where
  "datetime_max = 315537897599999999"

definition valid_datetime :: "timestamp \<Rightarrow> bool" where
  "valid_datetime t = (0 \<le> t \<and> t \<le> datetime_max)"

definition datetime_add :: "timestamp \<Rightarrow> timedelta \<Rightarrow> error + timestamp" where
  "datetime_add t d = (if valid_datetime (t + d) then Inr (t + d) else Inl OverflowError)"

text \<open>\<^verbatim>\<open>BacktestConfig\<close>, with the fields the engine reads.\<close>

record backtest_config =
  starting_capital :: int
  commission_rate_bp :: int
  account_currency :: string
  bypass_logging :: bool
  console_prints :: bool
  log_thread :: bool
  log_to_file :: bool
  log_file_path :: string

text \<open>
  The parameters: the classes behind the engine. \<open>data_time_now\<close> and \<open>exec_time_now\<close>
  are \<^verbatim>\<open>data_client.time_now()\<close> and \<^verbatim>\<open>exec_client.time_now()\<close>.
\<close>

record ('w, 'k, 'b, 'c, 'f, 'i) collaborators =
  use_ticks :: "'w \<Rightarrow> bool"
  data_minute_index :: "'w \<Rightarrow> timestamp list"
  strategies :: "'w \<Rightarrow> strategy list"
  data_time_now :: "'w \<Rightarrow> timestamp"
  exec_time_now :: "'w \<Rightarrow> timestamp"
  get_next_minute_bars :: "timestamp \<Rightarrow> 'w \<Rightarrow> (symbol \<times> 'b \<times> 'b) list"
  iterate_ticks :: "timestamp \<Rightarrow> 'w \<Rightarrow> 'k list"
  iterate_bars :: "timestamp \<Rightarrow> 'w \<Rightarrow> 'c"
  tick_timestamp :: "'k \<Rightarrow> timestamp"
  format_zulu_datetime :: "timestamp \<Rightarrow> string"
  perform :: "('k, 'b, 'c, 'f, 'i) call \<Rightarrow> 'w \<Rightarrow> 'w"

text \<open>
  The engine object. \<open>iteration\<close> is declared \<^verbatim>\<open>cdef readonly int iteration\<close>
  (\<^verbatim>\<open>nautilus_trader/backtest/engine.pxd\<close>, the one declaration of the attribute in the
  sources): a 32-bit C integer, whose \<^verbatim>\<open>+= 1\<close> wraps around. \<open>clock_of\<close> records
  which clock object each component was handed (\<^verbatim>\<open>clock=self.test_clock\<close>,
  \<^verbatim>\<open>change_clock(TestClock())\<close>), \<open>clocks_made\<close> counts the \<^verbatim>\<open>TestClock()\<close> objects made.
\<close>

record ('w, 'k, 'b, 'c, 'f, 'i) engine =
  config :: backtest_config
  clock :: clock_ref
  created_time :: timestamp
  test_clock :: clock_ref
  iteration :: "32 word"
  instruments :: "'i list"
  time_to_initialize :: timedelta
  world :: 'w
  clock_of :: "component \<Rightarrow> clock_ref option"
  clocks_made :: nat
  calls :: "('k, 'b, 'c, 'f, 'i) call list"
  logger :: "log_entry list"
  test_logger :: "log_entry list"

subsection \<open>Calls, the clock, the loggers\<close>

definition call_on ::
  "('w, 'k, 'b, 'c, 'f, 'i) collaborators \<Rightarrow> ('k, 'b, 'c, 'f, 'i) call \<Rightarrow>
   ('w, 'k, 'b, 'c, 'f, 'i) engine \<Rightarrow> ('w, 'k, 'b, 'c, 'f, 'i) engine" where
  "call_on ops c e = e\<lparr>world := perform ops c (world e), calls := calls e @ [c]\<rparr>"

text \<open>\<^verbatim>\<open>self.test_clock.set_time(t)\<close>\<close>

definition set_time ::
  "('w, 'k, 'b, 'c, 'f, 'i) collaborators \<Rightarrow> timestamp \<Rightarrow>
   ('w, 'k, 'b, 'c, 'f, 'i) engine \<Rightarrow> ('w, 'k, 'b, 'c, 'f, 'i) engine" where
  "set_time ops t e = call_on ops (ClockSetTime t) e"

text \<open>\<^verbatim>\<open>self.log.info(...)\<close>, \<^verbatim>\<open>self.log.debug(...)\<close> and the like.\<close>

definition log_write ::
  "log_entry \<Rightarrow> ('w, 'k, 'b, 'c, 'f, 'i) engine \<Rightarrow> ('w, 'k, 'b, 'c, 'f, 'i) engine" where
  "log_write l e = e\<lparr>logger := logger e @ [l]\<rparr>"

definition test_log_write ::
  "log_entry \<Rightarrow> ('w, 'k, 'b, 'c, 'f, 'i) engine \<Rightarrow> ('w, 'k, 'b, 'c, 'f, 'i) engine" where
  "test_log_write l e = e\<lparr>test_logger := test_logger e @ [l]\<rparr>"

text \<open>
  \<^verbatim>\<open>_change_strategy_clocks_and_loggers\<close>: every strategy gets a clock object of its own
  (\<^verbatim>\<open>strategy.change_clock(TestClock())\<close>) and the engine's test logger.
\<close>

fun change_strategy_clocks_and_loggers ::
  "('w, 'k, 'b, 'c, 'f, 'i) collaborators \<Rightarrow> strategy list \<Rightarrow>
   ('w, 'k, 'b, 'c, 'f, 'i) engine \<Rightarrow> ('w, 'k, 'b, 'c, 'f, 'i) engine" where
  "change_strategy_clocks_and_loggers ops [] e = e"
| "change_strategy_clocks_and_loggers ops (s # ss) e =
     (let r = TestClockRef (clocks_made e);
          e1 = (call_on ops (StrategyChangeClock s r) e)
                 \<lparr>clocks_made := Suc (clocks_made e),
                  clock_of := (clock_of e)(StrategyC s \<mapsto> r)\<rparr>;
          e2 = call_on ops (StrategyChangeLogger s) e1
      in change_strategy_clocks_and_loggers ops ss e2)"

subsection \<open>The main loop of \<^verbatim>\<open>run\<close>\<close>

text \<open>
  \<^verbatim>\<open>for symbol, bid_ask_bars in ...items(): self.exec_client.process_bars(symbol,
  bid_ask_bars[0], bid_ask_bars[1])\<close>
\<close>

fun exec_process_bars ::
  "('w, 'k, 'b, 'c, 'f, 'i) collaborators \<Rightarrow> (symbol \<times> 'b \<times> 'b) list \<Rightarrow>
   ('w, 'k, 'b, 'c, 'f, 'i) engine \<Rightarrow> ('w, 'k, 'b, 'c, 'f, 'i) engine" where
  "exec_process_bars ops [] e = e"
| "exec_process_bars ops ((symb, bid_bar, ask_bar) # rest) e =
     exec_process_bars ops rest (call_on ops (ExecProcessBars symb bid_bar ask_bar) e)"

text \<open>\<^verbatim>\<open>for strategy in self.trader.strategies: strategy.iterate(tick.timestamp)\<close>\<close>

fun iterate_strategies ::
  "('w, 'k, 'b, 'c, 'f, 'i) collaborators \<Rightarrow> timestamp \<Rightarrow> strategy list \<Rightarrow>
   ('w, 'k, 'b, 'c, 'f, 'i) engine \<Rightarrow> ('w, 'k, 'b, 'c, 'f, 'i) engine" where
  "iterate_strategies ops ts [] e = e"
| "iterate_strategies ops ts (s # ss) e =
     iterate_strategies ops ts ss (call_on ops (StrategyIterate s ts) e)"

text \<open>The body of \<^verbatim>\<open>for tick in self.data_client.iterate_ticks(time)\<close>, and the loop.\<close>

definition process_one_tick ::
  "('w, 'k, 'b, 'c, 'f, 'i) collaborators \<Rightarrow> 'k \<Rightarrow>
   ('w, 'k, 'b, 'c, 'f, 'i) engine \<Rightarrow> ('w, 'k, 'b, 'c, 'f, 'i) engine" where
  "process_one_tick ops tick e =
     (let e1 = set_time ops (tick_timestamp ops tick) e;
          e2 = (if use_ticks ops (world e1) then call_on ops (ExecProcessTick tick) e1 else e1);
          e3 = iterate_strategies ops (tick_timestamp ops tick) (strategies ops (world e2)) e2
      in call_on ops (DataProcessTick tick) e3)"

fun process_ticks ::
  "('w, 'k, 'b, 'c, 'f, 'i) collaborators \<Rightarrow> 'k list \<Rightarrow>
   ('w, 'k, 'b, 'c, 'f, 'i) engine \<Rightarrow> ('w, 'k, 'b, 'c, 'f, 'i) engine" where
  "process_ticks ops [] e = e"
| "process_ticks ops (tick # rest) e = process_ticks ops rest (process_one_tick ops tick e)"

text \<open>
  The three parts of one pass through \<^verbatim>\<open>while time <= stop\<close>, up to
  \<^verbatim>\<open>time += time_step\<close>.
\<close>

definition bars_phase ::
  "('w, 'k, 'b, 'c, 'f, 'i) collaborators \<Rightarrow> timestamp \<Rightarrow>
   ('w, 'k, 'b, 'c, 'f, 'i) engine \<Rightarrow> ('w, 'k, 'b, 'c, 'f, 'i) engine" where
  "bars_phase ops time e =
     (if \<not> use_ticks ops (world e)
      then exec_process_bars ops (get_next_minute_bars ops time (world e))
             (call_on ops (DataGetNextMinuteBars time) e)
      else e)"

definition ticks_phase ::
  "('w, 'k, 'b, 'c, 'f, 'i) collaborators \<Rightarrow> timestamp \<Rightarrow>
   ('w, 'k, 'b, 'c, 'f, 'i) engine \<Rightarrow> ('w, 'k, 'b, 'c, 'f, 'i) engine" where
  "ticks_phase ops time e =
     process_ticks ops (iterate_ticks ops time (world e)) (call_on ops (DataIterateTicks time) e)"

definition step_end ::
  "('w, 'k, 'b, 'c, 'f, 'i) collaborators \<Rightarrow> timestamp \<Rightarrow>
   ('w, 'k, 'b, 'c, 'f, 'i) engine \<Rightarrow> ('w, 'k, 'b, 'c, 'f, 'i) engine" where
  "step_end ops time e =
     (let e1 = set_time ops time e
      in call_on ops (DataProcessBars (iterate_bars ops time (world e1)))
           (call_on ops (DataIterateBars time) e1))"

definition loop_pass ::
  "('w, 'k, 'b, 'c, 'f, 'i) collaborators \<Rightarrow> timestamp \<Rightarrow>
   ('w, 'k, 'b, 'c, 'f, 'i) engine \<Rightarrow> ('w, 'k, 'b, 'c, 'f, 'i) engine" where
  "loop_pass ops time e = step_end ops time (ticks_phase ops time (bars_phase ops time e))"

text \<open>\<^verbatim>\<open>self.iteration += 1\<close>, and a whole pass of the loop: the three parts and the count.\<close>

definition count_pass ::
  "('w, 'k, 'b, 'c, 'f, 'i) engine \<Rightarrow> ('w, 'k, 'b, 'c, 'f, 'i) engine" where
  "count_pass e = e\<lparr>iteration := iteration e + 1\<rparr>"

definition loop_body ::
  "('w, 'k, 'b, 'c, 'f, 'i) collaborators \<Rightarrow> timestamp \<Rightarrow>
   ('w, 'k, 'b, 'c, 'f, 'i) engine \<Rightarrow> ('w, 'k, 'b, 'c, 'f, 'i) engine" where
  "loop_body ops time e = count_pass (loop_pass ops time e)"

text \<open>
  \<^verbatim>\<open>while time <= stop: ...; time += time_step; self.iteration += 1\<close>. The addition
  raises \<^verbatim>\<open>OverflowError\<close> when the sum is no \<^verbatim>\<open>datetime\<close>: the loop ends there, before the
  count, with \<open>Inl\<close>. Nothing in the source keeps \<^verbatim>\<open>time_step\<close> away from zero, so the loop
  need not end: not returning is the value \<open>None\<close>.
\<close>

partial_function (option) run_loop ::
  "('w, 'k, 'b, 'c, 'f, 'i) collaborators \<Rightarrow> timestamp \<Rightarrow> timedelta \<Rightarrow> timestamp \<Rightarrow>
   ('w, 'k, 'b, 'c, 'f, 'i) engine \<Rightarrow>
   ((error \<times> ('w, 'k, 'b, 'c, 'f, 'i) engine) + ('w, 'k, 'b, 'c, 'f, 'i) engine) option" where
  "run_loop ops stop time_step time e =
     (if time \<le> stop
      then (case datetime_add time time_step of
              Inl err \<Rightarrow> Some (Inl (err, loop_pass ops time e))
            | Inr time' \<Rightarrow> run_loop ops stop time_step time' (loop_body ops time e))
      else Some (Inr e))"

subsection \<open>\<^verbatim>\<open>run\<close>\<close>

text \<open>\<^verbatim>\<open>_backtest_header\<close> and \<^verbatim>\<open>_backtest_footer\<close>\<close>

definition backtest_header ::
  "('w, 'k, 'b, 'c, 'f, 'i) collaborators \<Rightarrow> timestamp \<Rightarrow> timestamp \<Rightarrow> timestamp \<Rightarrow>
   timedelta \<Rightarrow> ('w, 'k, 'b, 'c, 'f, 'i) engine \<Rightarrow> ('w, 'k, 'b, 'c, 'f, 'i) engine" where
  "backtest_header ops run_started start stop time_step e =
     (let execution_res = (if use_ticks ops (world e) then ''TICKS'' else ''1-MINUTE BARS'')
      in log_write (BacktestHeader run_started start stop time_step execution_res) e)"

definition backtest_footer ::
  "timestamp \<Rightarrow> timestamp \<Rightarrow> timestamp \<Rightarrow> timestamp \<Rightarrow> timedelta \<Rightarrow>
   ('w, 'k, 'b, 'c, 'f, 'i) engine \<Rightarrow> ('w, 'k, 'b, 'c, 'f, 'i) engine" where
  "backtest_footer run_started wall_now start stop time_step e =
     log_write (BacktestFooter run_started (wall_now - run_started) start stop time_step
                  (iteration e)) e"

text \<open>
  The part of \<^verbatim>\<open>run\<close> between the preconditions and the main loop. \<open>run_started\<close> is
  the reading of the wall clock (\<^verbatim>\<open>self.clock.time_now()\<close>).
\<close>

definition run_setup ::
  "('w, 'k, 'b, 'c, 'f, 'i) collaborators \<Rightarrow> timestamp \<Rightarrow> timestamp \<Rightarrow> timedelta \<Rightarrow>
   'f option \<Rightarrow> timestamp \<Rightarrow>
   ('w, 'k, 'b, 'c, 'f, 'i) engine \<Rightarrow> ('w, 'k, 'b, 'c, 'f, 'i) engine" where
  "run_setup ops start stop time_step fill_model run_started e =
     (let e1 = (case fill_model of None \<Rightarrow> e
                | Some fm \<Rightarrow> call_on ops (ExecChangeFillModel fm) e);
          e2 = test_log_write ClearLogStore e1;
          e3 = (if log_to_file (config e2)
                then (let backtest_log_name =
                            ''backtest'' @ ''-'' @ format_zulu_datetime ops run_started
                      in test_log_write (ChangeLogFileName backtest_log_name)
                           (log_write (ChangeLogFileName backtest_log_name) e2))
                else e2);
          e4 = backtest_header ops run_started start stop time_step e3;
          e5 = log_write (Info ''Setting up backtest...'') e4;
          e6 = set_time ops start e5;
          e7 = change_strategy_clocks_and_loggers ops (strategies ops (world e6)) e6;
          e8 = call_on ops TraderStart e7;
          e9 = log_write (Debug ''Setting initial iterations...'')
                 (log_write (Info ''Running backtest...'') e8)
      in call_on ops (DataSetInitialIteration start time_step) e9)"

text \<open>The part of \<^verbatim>\<open>run\<close> after the main loop.\<close>

definition run_finish ::
  "('w, 'k, 'b, 'c, 'f, 'i) collaborators \<Rightarrow> timestamp \<Rightarrow> timestamp \<Rightarrow> timedelta \<Rightarrow>
   bool \<Rightarrow> timestamp \<Rightarrow> timestamp \<Rightarrow>
   ('w, 'k, 'b, 'c, 'f, 'i) engine \<Rightarrow> ('w, 'k, 'b, 'c, 'f, 'i) engine" where
  "run_finish ops start stop time_step print_log_store run_started wall_now e =
     (let e1 = log_write (Info ''Stopping...'') e;
          e2 = call_on ops TraderStop e1;
          e3 = log_write (Info ''Stopped.'') e2;
          e4 = backtest_footer run_started wall_now start stop time_step e3
      in if print_log_store then log_write PrintLogStore e4 else e4)"

text \<open>
  The statements of \<^verbatim>\<open>run\<close>. The result is \<open>None\<close> when they never come to an end,
  \<open>Some (Inl (err, e'))\<close> when one of them raises \<open>err\<close> with the engine as \<open>e'\<close>, and
  \<open>Some (Inr e')\<close> when the last one is done. \<^verbatim>\<open>Precondition.true(p, text)\<close> raises
  \<^verbatim>\<open>ValueError\<close> when \<open>p\<close> is false (the docstring of \<^verbatim>\<open>run\<close>); reading
  \<^verbatim>\<open>data_minute_index[0]\<close> of an empty index raises \<^verbatim>\<open>IndexError\<close>; an \<^verbatim>\<open>assert\<close> whose
  condition is false raises \<^verbatim>\<open>AssertionError\<close> (assertions are compiled in unless the
  build turns them off).
\<close>

definition run_body ::
  "('w, 'k, 'b, 'c, 'f, 'i) collaborators \<Rightarrow> timestamp \<Rightarrow> timestamp \<Rightarrow> timedelta \<Rightarrow>
   'f option \<Rightarrow> bool \<Rightarrow> timestamp \<Rightarrow> timestamp \<Rightarrow> ('w, 'k, 'b, 'c, 'f, 'i) engine \<Rightarrow>
   ((error \<times> ('w, 'k, 'b, 'c, 'f, 'i) engine) + ('w, 'k, 'b, 'c, 'f, 'i) engine) option" where
  "run_body ops start stop time_step fill_model print_log_store run_started wall_now e =
     (let index = data_minute_index ops (world e) in
      if \<not> start < stop then Some (Inl (ValueError ''start < stop'', e))
      else if index = [] then Some (Inl (IndexError, e))
      else if \<not> index ! 0 \<le> start then Some (Inl (ValueError ''start >= first_timestamp'', e))
      else if \<not> stop \<le> index ! (length index - 1)
        then Some (Inl (ValueError ''stop <= last_timestamp'', e))
      else
        (let e1 = run_setup ops start stop time_step fill_model run_started e in
         if data_time_now ops (world e1) \<noteq> start then Some (Inl (AssertionError, e1))
         else if exec_time_now ops (world e1) \<noteq> start then Some (Inl (AssertionError, e1))
         else
           (case run_loop ops stop time_step start e1 of
              None \<Rightarrow> None
            | Some (Inl raised) \<Rightarrow> Some (Inl raised)
            | Some (Inr e2) \<Rightarrow>
                Some (Inr (run_finish ops start stop time_step print_log_store
                             run_started wall_now e2)))))"

text \<open>
  \<^verbatim>\<open>run\<close> as its caller sees it. The method is declared \<^verbatim>\<open>cpdef void run(...)\<close> with no
  \<^verbatim>\<open>except\<close> clause: a C function that returns nothing has no way to report an
  exception, and the code Cython 0.29 generates for it prints the exception
  (\<^verbatim>\<open>Exception ignored in\<close>), drops it and returns. So every call that comes to an end
  returns normally: the result is \<open>Some (ignored, e')\<close> with the engine \<open>e'\<close> as the call
  leaves it, where \<open>ignored\<close> is the exception that was printed and dropped, if any, and
  \<open>None\<close> when the call does not return.
\<close>

definition run ::
  "('w, 'k, 'b, 'c, 'f, 'i) collaborators \<Rightarrow> timestamp \<Rightarrow> timestamp \<Rightarrow> timedelta \<Rightarrow>
   'f option \<Rightarrow> bool \<Rightarrow> timestamp \<Rightarrow> timestamp \<Rightarrow> ('w, 'k, 'b, 'c, 'f, 'i) engine \<Rightarrow>
   (error option \<times> ('w, 'k, 'b, 'c, 'f, 'i) engine) option" where
  "run ops start stop time_step fill_model print_log_store run_started wall_now e =
     (case run_body ops start stop time_step fill_model print_log_store run_started wall_now e of
        None \<Rightarrow> None
      | Some (Inl (err, e')) \<Rightarrow> Some (Some err, e')
      | Some (Inr e') \<Rightarrow> Some (None, e'))"

subsection \<open>The constructor, \<^verbatim>\<open>change_strategies\<close>, \<^verbatim>\<open>reset\<close>, \<^verbatim>\<open>dispose\<close>\<close>

text \<open>
  \<^verbatim>\<open>__init__\<close>. \<open>w0\<close> is the world before the engine exists: the historical data and the
  strategy objects as the caller made them. The three readings of the wall clock are
  \<open>wall_created\<close> (\<^verbatim>\<open>created_time\<close>), \<open>wall_set\<close> (the argument of the first \<^verbatim>\<open>set_time\<close>)
  and \<open>wall_done\<close> (inside \<^verbatim>\<open>get_delta\<close>).
\<close>

definition engine_init ::
  "('w, 'k, 'b, 'c, 'f, 'i) collaborators \<Rightarrow> 'i list \<Rightarrow> strategy list \<Rightarrow> 'f \<Rightarrow>
   backtest_config \<Rightarrow> timestamp \<Rightarrow> timestamp \<Rightarrow> timestamp \<Rightarrow> 'w \<Rightarrow>
   ('w, 'k, 'b, 'c, 'f, 'i) engine" where
  "engine_init ops insts strats fill_model cfg wall_created wall_set wall_done w0 =
     (let e0 = \<lparr>config = cfg, clock = LiveClockRef 0, created_time = wall_created,
                test_clock = TestClockRef 0, iteration = 0,
                instruments = [], time_to_initialize = 0, world = w0,
                clock_of = Map.empty, clocks_made = 1, calls = [], logger = [],
                test_logger = []\<rparr>;
          e1 = set_time ops wall_set e0;
          e2 = e1\<lparr>iteration := 0,
                  clock_of := (clock_of e1)(LoggerC \<mapsto> test_clock e1,
                                            TestLoggerC \<mapsto> test_clock e1)\<rparr>;
          e3 = log_write (Info ''Building engine...'') (log_write EngineHeader e2);
          e4 = call_on ops MakeAccount e3;
          e5 = (call_on ops MakePortfolio e4)
                 \<lparr>clock_of := (clock_of e4)(PortfolioC \<mapsto> test_clock e4)\<rparr>;
          e6 = e5\<lparr>instruments := insts\<rparr>;
          e7 = (call_on ops (MakeDataClient insts) e6)
                 \<lparr>clock_of := (clock_of e6)(DataClientC \<mapsto> test_clock e6)\<rparr>;
          e8 = (call_on ops (MakeExecClient insts fill_model) e7)
                 \<lparr>clock_of := (clock_of e7)(ExecClientC \<mapsto> test_clock e7)\<rparr>;
          e9 = change_strategy_clocks_and_loggers ops strats e8;
          e10 = (call_on ops (MakeTrader strats) e9)
                  \<lparr>clock_of := (clock_of e9)(TraderC \<mapsto> test_clock e9)\<rparr>;
          e11 = e10\<lparr>time_to_initialize := wall_done - wall_created\<rparr>
      in log_write (InitializedIn (time_to_initialize e11)) e11)"

definition change_strategies ::
  "('w, 'k, 'b, 'c, 'f, 'i) collaborators \<Rightarrow> strategy list \<Rightarrow>
   ('w, 'k, 'b, 'c, 'f, 'i) engine \<Rightarrow> ('w, 'k, 'b, 'c, 'f, 'i) engine" where
  "change_strategies ops strats e =
     call_on ops (TraderChangeStrategies strats)
       (change_strategy_clocks_and_loggers ops strats e)"

definition reset ::
  "('w, 'k, 'b, 'c, 'f, 'i) collaborators \<Rightarrow>
   ('w, 'k, 'b, 'c, 'f, 'i) engine \<Rightarrow> ('w, 'k, 'b, 'c, 'f, 'i) engine" where
  "reset ops e =
     (let e1 = log_write (Info ''Resetting...'') e;
          e2 = e1\<lparr>iteration := 0\<rparr>;
          e3 = call_on ops DataReset e2;
          e4 = call_on ops ExecReset e3;
          e5 = call_on ops TraderReset e4
      in log_write (Info ''Reset.'') e5)"

definition dispose ::
  "('w, 'k, 'b, 'c, 'f, 'i) collaborators \<Rightarrow>
   ('w, 'k, 'b, 'c, 'f, 'i) engine \<Rightarrow> ('w, 'k, 'b, 'c, 'f, 'i) engine" where
  "dispose ops e = call_on ops TraderDispose e"

section \<open>Observations, call shapes and sample inputs\<close>

subsection \<open>How the main loop ends\<close>

text \<open>The passes of the loop, counted.\<close>

fun loop_steps ::
  "('w, 'k, 'b, 'c, 'f, 'i) collaborators \<Rightarrow> timedelta \<Rightarrow> nat \<Rightarrow> timestamp \<Rightarrow>
   ('w, 'k, 'b, 'c, 'f, 'i) engine \<Rightarrow> ('w, 'k, 'b, 'c, 'f, 'i) engine" where
  "loop_steps ops time_step 0 time e = e"
| "loop_steps ops time_step (Suc n) time e =
     loop_steps ops time_step n (time + time_step) (loop_body ops time e)"

definition passes_due :: "timestamp \<Rightarrow> timedelta \<Rightarrow> timestamp \<Rightarrow> nat" where
  "passes_due stop time_step time =
     (if time \<le> stop then nat ((stop - time) div time_step + 1) else 0)"

text \<open>
  How the loop has ended when it ends: after \<open>k\<close> whole passes with the next step boundary
  past \<open>stop\<close>, or in the addition of pass \<open>k + 1\<close>.
\<close>

definition loop_ended ::
  "('w, 'k, 'b, 'c, 'f, 'i) collaborators \<Rightarrow> timestamp \<Rightarrow> timedelta \<Rightarrow> timestamp \<Rightarrow>
   ('w, 'k, 'b, 'c, 'f, 'i) engine \<Rightarrow> nat \<Rightarrow>
   (error \<times> ('w, 'k, 'b, 'c, 'f, 'i) engine) + ('w, 'k, 'b, 'c, 'f, 'i) engine \<Rightarrow> bool" where
  "loop_ended ops stop time_step time e k r =
     (r = Inr (loop_steps ops time_step k time e) \<and> stop < time + int k * time_step \<and>
      (0 < k \<longrightarrow> time + (int k - 1) * time_step \<le> stop \<and>
                 valid_datetime (time + int k * time_step))
      \<or>
      r = Inl (OverflowError,
               loop_pass ops (time + int k * time_step) (loop_steps ops time_step k time e)) \<and>
      time + int k * time_step \<le> stop \<and>
      (0 < k \<longrightarrow> valid_datetime (time + int k * time_step)) \<and>
      \<not> valid_datetime (time + (int k + 1) * time_step))"

subsection \<open>Sample inputs\<close>

text \<open>
  A data client with a minute index of three timestamps that returns, at every step
  boundary, one tick stamped with the boundary and one pair of minute bars; two
  strategies; a world that counts the calls made on it and holds the time of the test
  clock, which \<^verbatim>\<open>set_time\<close> and \<^verbatim>\<open>set_initial_iteration\<close> write and the two \<^verbatim>\<open>time_now\<close>
  read.
\<close>

definition sample_config :: backtest_config where
  "sample_config = \<lparr>starting_capital = 1000000, commission_rate_bp = 20,
     account_currency = ''USD'', bypass_logging = True, console_prints = False,
     log_thread = False, log_to_file = False, log_file_path = ''backtests/''\<rparr>"

fun sample_clock :: "(int, int, int, nat, string) call \<Rightarrow> timestamp \<Rightarrow> timestamp" where
  "sample_clock (ClockSetTime t) now = t"
| "sample_clock (DataSetInitialIteration start time_step) now = start"
| "sample_clock c now = now"

definition sample_collaborators ::
  "bool \<Rightarrow> (nat \<times> timestamp, int, int, int, nat, string) collaborators" where
  "sample_collaborators tick_mode =
     \<lparr>use_ticks = (\<lambda>w. tick_mode),
      data_minute_index = (\<lambda>w. [0, 60, 120]),
      strategies = (\<lambda>w. [0, 1]),
      data_time_now = snd,
      exec_time_now = snd,
      get_next_minute_bars = (\<lambda>t w. [(''AUDUSD'', t, t + 1)]),
      iterate_ticks = (\<lambda>t w. [t]),
      iterate_bars = (\<lambda>t w. t),
      tick_timestamp = (\<lambda>k. k),
      format_zulu_datetime = (\<lambda>t. ''1970-01-01T00:00:00Z''),
      perform = (\<lambda>c w. (Suc (fst w), sample_clock c (snd w)))\<rparr>"

definition sample_engine ::
  "bool \<Rightarrow> (nat \<times> timestamp, int, int, int, nat, string) engine" where
  "sample_engine tick_mode =
     engine_init (sample_collaborators tick_mode) [''AUDUSD''] [0, 1] 0 sample_config
       1000 1000 1001 (0, 0)"

subsection \<open>The calls of one pass of the loop\<close>

text \<open>The calls made between two states of the engine.\<close>

definition new_calls ::
  "('w, 'k, 'b, 'c, 'f, 'i) engine \<Rightarrow> ('w, 'k, 'b, 'c, 'f, 'i) engine \<Rightarrow>
   ('k, 'b, 'c, 'f, 'i) call list" where
  "new_calls e e' = drop (length (calls e)) (calls e')"

text \<open>No call changes the mode of the data client (\<^verbatim>\<open>use_ticks\<close> is set when it is built).\<close>

definition mode_fixed :: "('w, 'k, 'b, 'c, 'f, 'i) collaborators \<Rightarrow> bool" where
  "mode_fixed ops = (\<forall>c w. use_ticks ops (perform ops c w) = use_ticks ops w)"

text \<open>
  The calls of one tick (\<open>b\<close>: whether the execution client is given the tick, and the
  strategies iterated), of the ticks of a pass, of the bars of a pass, of a whole pass.
\<close>

definition tick_calls ::
  "('k \<Rightarrow> timestamp) \<Rightarrow> 'k \<Rightarrow> bool \<times> strategy list \<Rightarrow> ('k, 'b, 'c, 'f, 'i) call list" where
  "tick_calls ts k b =
     ClockSetTime (ts k) # (if fst b then [ExecProcessTick k] else [])
       @ map (\<lambda>s. StrategyIterate s (ts k)) (snd b) @ [DataProcessTick k]"

definition ticks_calls ::
  "('k \<Rightarrow> timestamp) \<Rightarrow> 'k list \<Rightarrow> (bool \<times> strategy list) list \<Rightarrow>
   ('k, 'b, 'c, 'f, 'i) call list" where
  "ticks_calls ts ks bs = concat (map2 (tick_calls ts) ks bs)"

definition bars_calls ::
  "timestamp \<Rightarrow> (symbol \<times> 'b \<times> 'b) list \<Rightarrow> ('k, 'b, 'c, 'f, 'i) call list" where
  "bars_calls t bars =
     DataGetNextMinuteBars t # map (\<lambda>(s, bid_bar, ask_bar). ExecProcessBars s bid_bar ask_bar) bars"

definition pass_calls ::
  "bool \<Rightarrow> ('k \<Rightarrow> timestamp) \<Rightarrow> timestamp \<Rightarrow> (symbol \<times> 'b \<times> 'b) list \<Rightarrow> 'k list \<Rightarrow>
   (bool \<times> strategy list) list \<Rightarrow> 'c \<Rightarrow> ('k, 'b, 'c, 'f, 'i) call list" where
  "pass_calls m ts t bars ks bs c =
     (if m then [] else bars_calls t bars) @ DataIterateTicks t # ticks_calls ts ks bs
       @ [ClockSetTime t, DataIterateBars t, DataProcessBars c]"

text \<open>
  A call of \<^verbatim>\<open>run\<close> passes the three preconditions; and its two assertions hold: after
  the setup the data client and the execution client read \<open>start\<close> off their clock.
\<close>

definition run_accepts ::
  "('w, 'k, 'b, 'c, 'f, 'i) collaborators \<Rightarrow> timestamp \<Rightarrow> timestamp \<Rightarrow>
   ('w, 'k, 'b, 'c, 'f, 'i) engine \<Rightarrow> bool" where
  "run_accepts ops start stop e =
     (let index = data_minute_index ops (world e)
      in start < stop \<and> index \<noteq> [] \<and> index ! 0 \<le> start \<and> stop \<le> index ! (length index - 1))"

definition clocks_at_start ::
  "('w, 'k, 'b, 'c, 'f, 'i) collaborators \<Rightarrow> timestamp \<Rightarrow> timestamp \<Rightarrow> timedelta \<Rightarrow>
   'f option \<Rightarrow> timestamp \<Rightarrow> ('w, 'k, 'b, 'c, 'f, 'i) engine \<Rightarrow> bool" where
  "clocks_at_start ops start stop time_step fm rs e =
     (data_time_now ops (world (run_setup ops start stop time_step fm rs e)) = start \<and>
      exec_time_now ops (world (run_setup ops start stop time_step fm rs e)) = start)"

subsection \<open>Readings of a list of calls\<close>

text \<open>
  The step boundaries (one \<^verbatim>\<open>iterate_bars(time)\<close> per pass of the loop), the number of
  passes, and the timestamps assigned to the test clock.
\<close>

fun bars_iterated :: "('k, 'b, 'c, 'f, 'i) call \<Rightarrow> timestamp list" where
  "bars_iterated (DataIterateBars t) = [t]"
| "bars_iterated _ = []"

fun clock_set :: "('k, 'b, 'c, 'f, 'i) call \<Rightarrow> timestamp list" where
  "clock_set (ClockSetTime t) = [t]"
| "clock_set _ = []"

definition step_boundaries :: "('k, 'b, 'c, 'f, 'i) call list \<Rightarrow> timestamp list" where
  "step_boundaries cs = concat (map bars_iterated cs)"

definition loop_passes :: "('k, 'b, 'c, 'f, 'i) call list \<Rightarrow> nat" where
  "loop_passes cs = length (step_boundaries cs)"

definition clock_assignments :: "('k, 'b, 'c, 'f, 'i) call list \<Rightarrow> timestamp list" where
  "clock_assignments cs = concat (map clock_set cs)"

text \<open>The calls of the setup of a run.\<close>

definition setup_calls ::
  "'f option \<Rightarrow> timestamp \<Rightarrow> timedelta \<Rightarrow> strategy list \<Rightarrow> nat \<Rightarrow> ('k, 'b, 'c, 'f, 'i) call list" where
  "setup_calls fm start time_step ss n =
     (case fm of None \<Rightarrow> [] | Some f \<Rightarrow> [ExecChangeFillModel f])
     @ ClockSetTime start
     # concat (map2 (\<lambda>s n. [StrategyChangeClock s (TestClockRef n), StrategyChangeLogger s])
                ss [n ..< n + length ss])
     @ [TraderStart, DataSetInitialIteration start time_step]"

subsection \<open>What is delivered, and in which order\<close>



text \<open>What the execution client and the strategies (through the data client) are given.\<close>

fun exec_tick :: "('k, 'b, 'c, 'f, 'i) call \<Rightarrow> 'k list" where
  "exec_tick (ExecProcessTick k) = [k]"
| "exec_tick _ = []"

fun exec_bar :: "('k, 'b, 'c, 'f, 'i) call \<Rightarrow> (symbol \<times> 'b \<times> 'b) list" where
  "exec_bar (ExecProcessBars s bid_bar ask_bar) = [(s, bid_bar, ask_bar)]"
| "exec_bar _ = []"

fun data_tick :: "('k, 'b, 'c, 'f, 'i) call \<Rightarrow> 'k list" where
  "data_tick (DataProcessTick k) = [k]"
| "data_tick _ = []"

fun data_bar :: "('k, 'b, 'c, 'f, 'i) call \<Rightarrow> 'c list" where
  "data_bar (DataProcessBars c) = [c]"
| "data_bar _ = []"

definition exec_ticks :: "('k, 'b, 'c, 'f, 'i) call list \<Rightarrow> 'k list" where
  "exec_ticks cs = concat (map exec_tick cs)"

definition exec_bars :: "('k, 'b, 'c, 'f, 'i) call list \<Rightarrow> (symbol \<times> 'b \<times> 'b) list" where
  "exec_bars cs = concat (map exec_bar cs)"

definition data_ticks :: "('k, 'b, 'c, 'f, 'i) call list \<Rightarrow> 'k list" where
  "data_ticks cs = concat (map data_tick cs)"

definition data_bars :: "('k, 'b, 'c, 'f, 'i) call list \<Rightarrow> 'c list" where
  "data_bars cs = concat (map data_bar cs)"

text \<open>
  The ticks \<^verbatim>\<open>iterate_ticks(time)\<close> returns in \<open>n\<close> passes of the loop from the step
  boundary \<open>t\<close> on, each list with its step boundary; and those of a call of \<^verbatim>\<open>run\<close>.
\<close>

fun ticks_returned ::
  "('w, 'k, 'b, 'c, 'f, 'i) collaborators \<Rightarrow> timedelta \<Rightarrow> nat \<Rightarrow> timestamp \<Rightarrow>
   ('w, 'k, 'b, 'c, 'f, 'i) engine \<Rightarrow> (timestamp \<times> 'k list) list" where
  "ticks_returned ops time_step 0 t e = []"
| "ticks_returned ops time_step (Suc n) t e =
     (t, iterate_ticks ops t (world (bars_phase ops t e)))
     # ticks_returned ops time_step n (t + time_step) (loop_body ops t e)"

definition run_ticks ::
  "('w, 'k, 'b, 'c, 'f, 'i) collaborators \<Rightarrow> timestamp \<Rightarrow> timestamp \<Rightarrow> timedelta \<Rightarrow>
   'f option \<Rightarrow> timestamp \<Rightarrow> ('w, 'k, 'b, 'c, 'f, 'i) engine \<Rightarrow>
   (timestamp \<times> 'k list) list" where
  "run_ticks ops start stop time_step fm rs e =
     ticks_returned ops time_step (passes_due stop time_step start) start
       (run_setup ops start stop time_step fm rs e)"

text \<open>
  The timestamps assigned to the test clock in one pass: the timestamp of each tick
  returned, then the step boundary.
\<close>

definition pass_clock :: "('k \<Rightarrow> timestamp) \<Rightarrow> timestamp \<times> 'k list \<Rightarrow> timestamp list" where
  "pass_clock ts b = map ts (snd b) @ [fst b]"

text \<open>
  What makes the clock not move back inside a run: the ticks returned at the step
  boundary \<open>t\<close> come in timestamp order, none later than \<open>t\<close>, none earlier than the
  previous boundary \<open>t - time_step\<close> or than \<open>start\<close>.
\<close>

definition ticks_due_in_order ::
  "('k \<Rightarrow> timestamp) \<Rightarrow> timestamp \<Rightarrow> timedelta \<Rightarrow> timestamp \<times> 'k list \<Rightarrow> bool" where
  "ticks_due_in_order ts start time_step b =
     (sorted (map ts (snd b)) \<and>
      list_all (\<lambda>k. start \<le> ts k \<and> fst b - time_step \<le> ts k \<and> ts k \<le> fst b) (snd b))"

text \<open>
  A data client like the sample one, but whose ticks are stamped 30 earlier than the step
  boundary they are returned at.
\<close>

definition early_tick_collaborators ::
  "(nat \<times> timestamp, int, int, int, nat, string) collaborators" where
  "early_tick_collaborators = (sample_collaborators True)\<lparr>iterate_ticks := (\<lambda>t w. [t - 30])\<rparr>"

text \<open>The strategies \<^verbatim>\<open>self.trader.strategies\<close> as the setup of a run reads them.\<close>

definition strategies_at_setup ::
  "('w, 'k, 'b, 'c, 'f, 'i) collaborators \<Rightarrow> timestamp \<Rightarrow> 'f option \<Rightarrow>
   ('w, 'k, 'b, 'c, 'f, 'i) engine \<Rightarrow> strategy list" where
  "strategies_at_setup ops start fm e =
     strategies ops (perform ops (ClockSetTime start)
       (case fm of None \<Rightarrow> world e | Some f \<Rightarrow> perform ops (ExecChangeFillModel f) (world e)))"

subsection \<open>The portfolio\<close>

text \<open>
  Modelled from the spec: the Portfolio and its \<^verbatim>\<open>apply(Fill)\<close>. The class
  \<^verbatim>\<open>inv_trader.portfolio.portfolio.Portfolio\<close> is imported by the engine and is not among
  the sources; what follows is section 4.5 of the specification (with the data model of
  section 3) put into definitions. A fill names its instrument and side (the
  specification reaches them through the order the fill refers to). Money, prices and
  quantities are exact rationals.
\<close>

datatype order_side = Buy | Sell

text \<open>Modelled from the spec: a Fill (section 3), with the instrument and side of its order.\<close>

record fill =
  fill_id :: nat
  fill_order_id :: nat
  fill_instrument :: symbol
  fill_side :: order_side
  fill_quantity :: rat
  fill_price :: rat
  fill_commission :: rat
  fill_timestamp :: timestamp

text \<open>Modelled from the spec: a Position, net quantity and average entry price.\<close>

record position =
  net_quantity :: rat
  average_price :: rat

text \<open>Modelled from the spec: the Account, balance, realized PnL and total commissions.\<close>

record account =
  account_balance :: rat
  account_realized_pnl :: rat
  account_commissions :: rat

text \<open>
  Modelled from the spec: the Portfolio, the positions per instrument, the account and
  the identifiers of the fills applied so far.
\<close>

record portfolio =
  positions :: "symbol \<Rightarrow> position option"
  portfolio_account :: account
  applied_fills :: "nat list"

text \<open>Modelled from the spec: the error of \<^verbatim>\<open>apply(Fill)\<close>.\<close>

datatype portfolio_error = DuplicateFill

text \<open>Modelled from the spec: the quantity of a fill, signed by its side.\<close>

definition signed_quantity :: "fill \<Rightarrow> rat" where
  "signed_quantity f =
     (case fill_side f of Buy \<Rightarrow> fill_quantity f | Sell \<Rightarrow> - fill_quantity f)"

text \<open>
  Modelled from the spec: the position after a fill. Weighted-average price when the
  fill increases the exposure; the prior average price stays when it reduces it; a
  reversal opens the new exposure at the fill price; the position is removed when the
  net quantity returns to zero.
\<close>

definition position_after :: "position option \<Rightarrow> fill \<Rightarrow> position option" where
  "position_after old f =
     (let q = signed_quantity f;
          old_q = (case old of None \<Rightarrow> 0 | Some p \<Rightarrow> net_quantity p);
          old_avg = (case old of None \<Rightarrow> 0 | Some p \<Rightarrow> average_price p);
          new_q = old_q + q
      in if new_q = 0 then None
         else if old_q = 0 \<or> sgn old_q = sgn q
           then Some \<lparr>net_quantity = new_q,
                      average_price = (old_q * old_avg + q * fill_price f) / new_q\<rparr>
         else if sgn new_q = sgn old_q
           then Some \<lparr>net_quantity = new_q, average_price = old_avg\<rparr>
         else Some \<lparr>net_quantity = new_q, average_price = fill_price f\<rparr>)"

text \<open>
  Modelled from the spec: the profit or loss a fill realizes, against the prior average
  price, on the quantity it closes (zero when it only increases the exposure).
\<close>

definition realized_by :: "position option \<Rightarrow> fill \<Rightarrow> rat" where
  "realized_by old f =
     (let q = signed_quantity f;
          old_q = (case old of None \<Rightarrow> 0 | Some p \<Rightarrow> net_quantity p);
          old_avg = (case old of None \<Rightarrow> 0 | Some p \<Rightarrow> average_price p)
      in if old_q = 0 \<or> sgn old_q = sgn q then 0
         else (fill_price f - old_avg) * min \<bar>q\<bar> \<bar>old_q\<bar> * sgn old_q)"

text \<open>
  Modelled from the spec: \<^verbatim>\<open>apply(Fill)\<close>. A fill whose identifier was applied before is
  rejected with \<^verbatim>\<open>DuplicateFill\<close>; the error comes with the portfolio as the call leaves
  it.
\<close>

definition apply_fill :: "portfolio \<Rightarrow> fill \<Rightarrow> (portfolio_error \<times> portfolio) + portfolio" where
  "apply_fill p f =
     (if fill_id f \<in> set (applied_fills p) then Inl (DuplicateFill, p)
      else
        (let old = positions p (fill_instrument f);
             pnl = realized_by old f;
             a = portfolio_account p
         in Inr \<lparr>positions = (positions p)(fill_instrument f := position_after old f),
                  portfolio_account =
                    \<lparr>account_balance = account_balance a + pnl,
                     account_realized_pnl = account_realized_pnl a + pnl,
                     account_commissions = account_commissions a + fill_commission f\<rparr>,
                  applied_fills = fill_id f # applied_fills p\<rparr>))"

text \<open>
  Modelled from the spec: a run of \<^verbatim>\<open>apply(Fill)\<close> calls, one after the other; a call that
  is rejected leaves the portfolio as it was.
\<close>

fun apply_fills :: "portfolio \<Rightarrow> fill list \<Rightarrow> portfolio" where
  "apply_fills p [] = p"
| "apply_fills p (f # fs) =
     apply_fills (case apply_fill p f of Inl (err, p') \<Rightarrow> p' | Inr p' \<Rightarrow> p') fs"

text \<open>Modelled from the spec: the portfolios and fills of its scenarios A and B.\<close>

definition scenario_portfolio :: portfolio where
  "scenario_portfolio =
     \<lparr>positions = (\<lambda>s. None),
      portfolio_account = \<lparr>account_balance = 10000, account_realized_pnl = 0,
                            account_commissions = 0\<rparr>,
      applied_fills = []\<rparr>"

definition scenario_buy :: fill where
  "scenario_buy = \<lparr>fill_id = 1, fill_order_id = 1, fill_instrument = ''AUDUSD'',
                    fill_side = Buy, fill_quantity = 10, fill_price = 100,
                    fill_commission = 0, fill_timestamp = 0\<rparr>"

definition scenario_sell :: fill where
  "scenario_sell = \<lparr>fill_id = 2, fill_order_id = 2, fill_instrument = ''AUDUSD'',
                     fill_side = Sell, fill_quantity = 10, fill_price = 110,
                     fill_commission = 0, fill_timestamp = 60\<rparr>"

definition scenario_after_buy :: portfolio where
  "scenario_after_buy =
     \<lparr>positions = (\<lambda>s. None)(''AUDUSD'' \<mapsto> \<lparr>net_quantity = 10, average_price = 100\<rparr>),
      portfolio_account = \<lparr>account_balance = 10000, account_realized_pnl = 0,
                            account_commissions = 0\<rparr>,
      applied_fills = [1]\<rparr>"

definition scenario_after_sell :: portfolio where
  "scenario_after_sell =
     \<lparr>positions = (\<lambda>s. None),
      portfolio_account = \<lparr>account_balance = 10100, account_realized_pnl = 100,
                            account_commissions = 0\<rparr>,
      applied_fills = [2, 1]\<rparr>"

section \<open>Lemmas\<close>

subsection \<open>What each step leaves unchanged\<close>

lemma call_on_simps [simp]:
  "world (call_on ops c e) = perform ops c (world e)"
  "calls (call_on ops c e) = calls e @ [c]"
  "iteration (call_on ops c e) = iteration e"
  "test_clock (call_on ops c e) = test_clock e"
  "clock (call_on ops c e) = clock e"
  "created_time (call_on ops c e) = created_time e"
  "time_to_initialize (call_on ops c e) = time_to_initialize e"
  "config (call_on ops c e) = config e"
  "instruments (call_on ops c e) = instruments e"
  "clock_of (call_on ops c e) = clock_of e"
  "clocks_made (call_on ops c e) = clocks_made e"
  "logger (call_on ops c e) = logger e"
  "test_logger (call_on ops c e) = test_logger e"
  by (simp_all add: call_on_def)

lemma set_time_simps [simp]:
  "world (set_time ops t e) = perform ops (ClockSetTime t) (world e)"
  "calls (set_time ops t e) = calls e @ [ClockSetTime t]"
  "iteration (set_time ops t e) = iteration e"
  "test_clock (set_time ops t e) = test_clock e"
  "clock (set_time ops t e) = clock e"
  "created_time (set_time ops t e) = created_time e"
  "time_to_initialize (set_time ops t e) = time_to_initialize e"
  "config (set_time ops t e) = config e"
  "instruments (set_time ops t e) = instruments e"
  "clock_of (set_time ops t e) = clock_of e"
  "clocks_made (set_time ops t e) = clocks_made e"
  "logger (set_time ops t e) = logger e"
  "test_logger (set_time ops t e) = test_logger e"
  by (simp_all add: set_time_def)

lemma log_write_simps [simp]:
  "world (log_write l e) = world e"
  "calls (log_write l e) = calls e"
  "iteration (log_write l e) = iteration e"
  "test_clock (log_write l e) = test_clock e"
  "clock (log_write l e) = clock e"
  "created_time (log_write l e) = created_time e"
  "time_to_initialize (log_write l e) = time_to_initialize e"
  "config (log_write l e) = config e"
  "instruments (log_write l e) = instruments e"
  "clock_of (log_write l e) = clock_of e"
  "clocks_made (log_write l e) = clocks_made e"
  "logger (log_write l e) = logger e @ [l]"
  "test_logger (log_write l e) = test_logger e"
  by (simp_all add: log_write_def)

lemma test_log_write_simps [simp]:
  "world (test_log_write l e) = world e"
  "calls (test_log_write l e) = calls e"
  "iteration (test_log_write l e) = iteration e"
  "test_clock (test_log_write l e) = test_clock e"
  "clock (test_log_write l e) = clock e"
  "created_time (test_log_write l e) = created_time e"
  "time_to_initialize (test_log_write l e) = time_to_initialize e"
  "config (test_log_write l e) = config e"
  "instruments (test_log_write l e) = instruments e"
  "clock_of (test_log_write l e) = clock_of e"
  "clocks_made (test_log_write l e) = clocks_made e"
  "logger (test_log_write l e) = logger e"
  "test_logger (test_log_write l e) = test_logger e @ [l]"
  by (simp_all add: test_log_write_def)

lemma count_pass_simps [simp]:
  "world (count_pass e) = world e"
  "calls (count_pass e) = calls e"
  "iteration (count_pass e) = iteration e + 1"
  "test_clock (count_pass e) = test_clock e"
  "clock (count_pass e) = clock e"
  "created_time (count_pass e) = created_time e"
  "time_to_initialize (count_pass e) = time_to_initialize e"
  "config (count_pass e) = config e"
  "instruments (count_pass e) = instruments e"
  "clock_of (count_pass e) = clock_of e"
  "clocks_made (count_pass e) = clocks_made e"
  "logger (count_pass e) = logger e"
  "test_logger (count_pass e) = test_logger e"
  by (simp_all add: count_pass_def)

lemma loop_ended_Suc:
  assumes "time \<le> stop" and "valid_datetime (time + time_step)"
    and "loop_ended ops stop time_step (time + time_step) (loop_body ops time e) k r"
  shows "loop_ended ops stop time_step time e (Suc k) r"
proof -
  have a: "time + time_step + int k * time_step = time + (int k + 1) * time_step"
    by (simp add: algebra_simps)
  have b: "time + time_step + (int k + 1) * time_step = time + (int (Suc k) + 1) * time_step"
    by (simp add: algebra_simps)
  have c: "time + time_step + (int k - 1) * time_step = time + int k * time_step"
    by (simp add: algebra_simps)
  have v: "valid_datetime (time + int (Suc k) * time_step)"
    if "0 < k \<longrightarrow> valid_datetime (time + time_step + int k * time_step)"
  proof (cases k)
    case 0
    then show ?thesis using assms(2) by simp
  next
    case (Suc j)
    then have "valid_datetime (time + time_step + int k * time_step)" using that by simp
    then show ?thesis by (simp add: algebra_simps)
  qed
  from assms(3) consider
    (ended) "r = Inr (loop_steps ops time_step k (time + time_step) (loop_body ops time e))"
      "stop < time + time_step + int k * time_step"
      "0 < k \<longrightarrow> time + time_step + (int k - 1) * time_step \<le> stop \<and>
                 valid_datetime (time + time_step + int k * time_step)"
    | (raised) "r = Inl (OverflowError,
          loop_pass ops (time + time_step + int k * time_step)
            (loop_steps ops time_step k (time + time_step) (loop_body ops time e)))"
      "time + time_step + int k * time_step \<le> stop"
      "\<not> valid_datetime (time + time_step + (int k + 1) * time_step)"
      "0 < k \<longrightarrow> valid_datetime (time + time_step + int k * time_step)"
    unfolding loop_ended_def by blast
  then show ?thesis
  proof cases
    case ended
    have "time + (int (Suc k) - 1) * time_step \<le> stop"
    proof (cases k)
      case 0
      then show ?thesis using assms(1) by simp
    next
      case (Suc j)
      then show ?thesis using ended(3) c by simp
    qed
    moreover have "valid_datetime (time + int (Suc k) * time_step)"
      by (rule v) (use ended(3) in simp)
    moreover have "stop < time + int (Suc k) * time_step"
      using ended(2) by (simp add: algebra_simps)
    ultimately show ?thesis using ended(1) unfolding loop_ended_def by simp
  next
    case raised
    have "time + int (Suc k) * time_step \<le> stop" using raised(2) by (simp add: algebra_simps)
    moreover have "\<not> valid_datetime (time + (int (Suc k) + 1) * time_step)"
      using raised(3) by (simp add: algebra_simps)
    moreover have "valid_datetime (time + int (Suc k) * time_step)"
      by (rule v) (rule raised(4))
    moreover have "r = Inl (OverflowError,
        loop_pass ops (time + int (Suc k) * time_step) (loop_steps ops time_step (Suc k) time e))"
      using raised(1) by (simp add: algebra_simps)
    ultimately show ?thesis unfolding loop_ended_def by blast
  qed
qed

lemma run_loop_ended:
  assumes "run_loop ops stop time_step time e = Some r"
  shows "\<exists>k. loop_ended ops stop time_step time e k r"
proof (rule run_loop.raw_induct [OF _ assms,
        where P = "\<lambda>ops stop time_step time e r. \<exists>k. loop_ended ops stop time_step time e k r"])
  fix f ops stop time_step time and e :: "('a, 'b, 'c, 'd, 'e, 'f) engine"
    and r :: "(error \<times> ('a, 'b, 'c, 'd, 'e, 'f) engine) + ('a, 'b, 'c, 'd, 'e, 'f) engine"
  assume IH: "\<And>ops stop time_step time e r.
                f ops stop time_step time e = Some r \<Longrightarrow>
                \<exists>k. loop_ended ops stop time_step time e k r"
    and eq: "(if time \<le> stop
              then case datetime_add time time_step of
                     Inl err \<Rightarrow> Some (Inl (err, loop_pass ops time e))
                   | Inr time' \<Rightarrow> f ops stop time_step time' (loop_body ops time e)
              else Some (Inr e)) = Some r"
  show "\<exists>k. loop_ended ops stop time_step time e k r"
  proof (cases "time \<le> stop")
    case False
    with eq have "r = Inr e" by simp
    with False have "loop_ended ops stop time_step time e 0 r" by (simp add: loop_ended_def)
    then show ?thesis ..
  next
    case True
    show ?thesis
    proof (cases "valid_datetime (time + time_step)")
      case False
      with eq True have "r = Inl (OverflowError, loop_pass ops time e)"
        by (simp add: datetime_add_def)
      with True False have "loop_ended ops stop time_step time e 0 r"
        by (simp add: loop_ended_def)
      then show ?thesis ..
    next
      case valid: True
      with eq True have "f ops stop time_step (time + time_step) (loop_body ops time e) = Some r"
        by (simp add: datetime_add_def)
      from IH [OF this] obtain k where
        "loop_ended ops stop time_step (time + time_step) (loop_body ops time e) k r" ..
      from loop_ended_Suc [OF True valid this] show ?thesis ..
    qed
  qed
qed

text \<open>The loop ends for every step but zero.\<close>

lemma run_loop_ends_forward:
  assumes "0 < time_step"
  shows "\<exists>r. run_loop ops stop time_step time e = Some r"
proof (induction "nat (stop - time + 1)" arbitrary: time e rule: less_induct)
  case less
  show ?case
  proof (cases "time \<le> stop \<and> valid_datetime (time + time_step)")
    case False
    then show ?thesis by (subst run_loop.simps) (auto simp: datetime_add_def)
  next
    case True
    then have "nat (stop - (time + time_step) + 1) < nat (stop - time + 1)"
      using assms by simp
    from less [OF this, of "loop_body ops time e"] True show ?thesis
      by (subst run_loop.simps) (simp add: datetime_add_def)
  qed
qed

lemma run_loop_ends_backward:
  assumes "time_step < 0"
  shows "\<exists>r. run_loop ops stop time_step time e = Some r"
proof (induction "nat time" arbitrary: time e rule: less_induct)
  case less
  show ?case
  proof (cases "time \<le> stop \<and> valid_datetime (time + time_step)")
    case False
    then show ?thesis by (subst run_loop.simps) (auto simp: datetime_add_def)
  next
    case True
    then have "nat (time + time_step) < nat time"
      using assms by (simp add: valid_datetime_def)
    from less [OF this, of "loop_body ops time e"] True show ?thesis
      by (subst run_loop.simps) (simp add: datetime_add_def)
  qed
qed

text \<open>With a step of zero the loop, once entered, does not end.\<close>

lemma run_loop_diverges:
  assumes "time \<le> stop" and "valid_datetime time"
  shows "run_loop ops stop 0 time e = None"
proof (cases "run_loop ops stop 0 time e")
  case None
  then show ?thesis .
next
  case (Some r)
  from run_loop_ended [OF Some] obtain k where "loop_ended ops stop 0 time e k r" ..
  with assms show ?thesis by (auto simp: loop_ended_def)
qed

lemma sample_collaborators_simps [simp]:
  "use_ticks (sample_collaborators m) w = m"
  "data_minute_index (sample_collaborators m) w = [0, 60, 120]"
  "strategies (sample_collaborators m) w = [0, 1]"
  "data_time_now (sample_collaborators m) w = snd w"
  "exec_time_now (sample_collaborators m) w = snd w"
  "get_next_minute_bars (sample_collaborators m) t w = [(''AUDUSD'', t, t + 1)]"
  "iterate_ticks (sample_collaborators m) t w = [t]"
  "iterate_bars (sample_collaborators m) t w = t"
  "tick_timestamp (sample_collaborators m) k = k"
  "perform (sample_collaborators m) c w = (Suc (fst w), sample_clock c (snd w))"
  by (simp_all add: sample_collaborators_def)

subsection \<open>The calls of one pass of the loop\<close>

lemma exec_process_bars_calls:
  "calls (exec_process_bars ops bars e)
   = calls e @ map (\<lambda>(s, bid_bar, ask_bar). ExecProcessBars s bid_bar ask_bar) bars"
  by (induction ops bars e rule: exec_process_bars.induct) simp_all

lemma iterate_strategies_calls:
  "calls (iterate_strategies ops ts ss e) = calls e @ map (\<lambda>s. StrategyIterate s ts) ss"
  by (induction ss arbitrary: e) simp_all

lemma exec_process_bars_mode:
  "mode_fixed ops \<Longrightarrow> use_ticks ops (world (exec_process_bars ops bars e)) = use_ticks ops (world e)"
  by (induction ops bars e rule: exec_process_bars.induct) (simp_all add: mode_fixed_def)

lemma iterate_strategies_mode:
  "mode_fixed ops \<Longrightarrow> use_ticks ops (world (iterate_strategies ops ts ss e)) = use_ticks ops (world e)"
  by (induction ss arbitrary: e) (simp_all add: mode_fixed_def)

lemma process_one_tick_calls:
  "\<exists>b. (mode_fixed ops \<longrightarrow> fst b = use_ticks ops (world e)) \<and>
        calls (process_one_tick ops k e) = calls e @ tick_calls (tick_timestamp ops) k b"
proof -
  let ?e1 = "set_time ops (tick_timestamp ops k) e"
  let ?m = "use_ticks ops (world ?e1)"
  let ?e2 = "if ?m then call_on ops (ExecProcessTick k) ?e1 else ?e1"
  let ?b = "(?m, strategies ops (world ?e2))"
  have "calls (process_one_tick ops k e) = calls e @ tick_calls (tick_timestamp ops) k ?b"
    by (simp add: process_one_tick_def Let_def tick_calls_def iterate_strategies_calls)
  moreover have "mode_fixed ops \<longrightarrow> fst ?b = use_ticks ops (world e)"
    by (simp add: mode_fixed_def)
  ultimately show ?thesis by blast
qed

lemma mode_fixedD: "mode_fixed ops \<Longrightarrow> use_ticks ops (perform ops c w) = use_ticks ops w"
  by (simp add: mode_fixed_def)

lemma process_one_tick_mode:
  assumes "mode_fixed ops"
  shows "use_ticks ops (world (process_one_tick ops k e)) = use_ticks ops (world e)"
  by (simp add: process_one_tick_def Let_def iterate_strategies_mode [OF assms]
        mode_fixedD [OF assms])

lemma process_ticks_calls:
  "\<exists>bs. length bs = length ks \<and>
         (mode_fixed ops \<longrightarrow> (\<forall>b\<in>set bs. fst b = use_ticks ops (world e))) \<and>
         calls (process_ticks ops ks e) = calls e @ ticks_calls (tick_timestamp ops) ks bs"
proof (induction ks arbitrary: e)
  case Nil
  show ?case by (simp add: ticks_calls_def)
next
  case (Cons k ks)
  from process_one_tick_calls [of ops e k]
  obtain b where b: "(mode_fixed ops \<longrightarrow> fst b = use_ticks ops (world e)) \<and>
    calls (process_one_tick ops k e) = calls e @ tick_calls (tick_timestamp ops) k b" ..
  from Cons.IH [of "process_one_tick ops k e"]
  obtain bs where bs: "length bs = length ks \<and>
    (mode_fixed ops \<longrightarrow> (\<forall>b\<in>set bs. fst b = use_ticks ops (world (process_one_tick ops k e)))) \<and>
    calls (process_ticks ops ks (process_one_tick ops k e))
     = calls (process_one_tick ops k e) @ ticks_calls (tick_timestamp ops) ks bs" ..
  have "length (b # bs) = length (k # ks)" using bs by simp
  moreover have "mode_fixed ops \<longrightarrow> (\<forall>x\<in>set (b # bs). fst x = use_ticks ops (world e))"
    using b bs by (simp add: process_one_tick_mode)
  moreover have "calls (process_ticks ops (k # ks) e)
      = calls e @ ticks_calls (tick_timestamp ops) (k # ks) (b # bs)"
    using b bs by (simp add: ticks_calls_def)
  ultimately show ?case by (intro exI [of _ "b # bs"] conjI)
qed

lemma process_ticks_mode:
  "mode_fixed ops \<Longrightarrow> use_ticks ops (world (process_ticks ops ks e)) = use_ticks ops (world e)"
  by (induction ks arbitrary: e) (simp_all add: process_one_tick_mode)

lemma bars_phase_calls:
  "calls (bars_phase ops t e)
   = calls e @ (if use_ticks ops (world e) then []
                else bars_calls t (get_next_minute_bars ops t (world e)))"
  by (simp add: bars_phase_def bars_calls_def exec_process_bars_calls)

lemma bars_phase_mode:
  "mode_fixed ops \<Longrightarrow> use_ticks ops (world (bars_phase ops t e)) = use_ticks ops (world e)"
  by (simp add: bars_phase_def exec_process_bars_mode) (simp add: mode_fixed_def)

lemma ticks_phase_mode:
  "mode_fixed ops \<Longrightarrow> use_ticks ops (world (ticks_phase ops t e)) = use_ticks ops (world e)"
  by (simp add: ticks_phase_def process_ticks_mode) (simp add: mode_fixed_def)

lemma step_end_mode:
  "mode_fixed ops \<Longrightarrow> use_ticks ops (world (step_end ops t e)) = use_ticks ops (world e)"
  by (simp add: step_end_def Let_def mode_fixed_def)

lemma loop_body_mode:
  "mode_fixed ops \<Longrightarrow> use_ticks ops (world (loop_body ops t e)) = use_ticks ops (world e)"
  by (simp add: loop_body_def loop_pass_def step_end_mode ticks_phase_mode bars_phase_mode)

lemma loop_body_calls:
  "\<exists>bs. length bs = length (iterate_ticks ops t (world (bars_phase ops t e))) \<and>
         (mode_fixed ops \<longrightarrow> (\<forall>b\<in>set bs. fst b = use_ticks ops (world e))) \<and>
         calls (loop_body ops t e)
         = calls e @ pass_calls (use_ticks ops (world e)) (tick_timestamp ops) t
             (get_next_minute_bars ops t (world e))
             (iterate_ticks ops t (world (bars_phase ops t e))) bs
             (iterate_bars ops t (world (set_time ops t (ticks_phase ops t (bars_phase ops t e)))))"
proof -
  let ?e1 = "bars_phase ops t e"
  let ?ks = "iterate_ticks ops t (world ?e1)"
  let ?e1' = "call_on ops (DataIterateTicks t) ?e1"
  from process_ticks_calls [of ?ks ops ?e1']
  obtain bs where bs: "length bs = length ?ks \<and>
    (mode_fixed ops \<longrightarrow> (\<forall>b\<in>set bs. fst b = use_ticks ops (world ?e1'))) \<and>
    calls (process_ticks ops ?ks ?e1') = calls ?e1' @ ticks_calls (tick_timestamp ops) ?ks bs" ..
  have "mode_fixed ops \<longrightarrow> (\<forall>b\<in>set bs. fst b = use_ticks ops (world e))"
    using bs by (simp add: bars_phase_mode mode_fixedD)
  moreover have "calls (loop_body ops t e)
         = calls e @ pass_calls (use_ticks ops (world e)) (tick_timestamp ops) t
             (get_next_minute_bars ops t (world e)) ?ks bs
             (iterate_bars ops t (world (set_time ops t (ticks_phase ops t ?e1))))"
    using bs
    by (simp add: loop_body_def loop_pass_def step_end_def Let_def ticks_phase_def bars_phase_calls
          pass_calls_def)
  moreover have "length bs = length ?ks" using bs by simp
  ultimately show ?thesis by (intro exI [of _ bs] conjI)
qed

lemma loop_pass_calls: "calls (loop_pass ops t e) = calls (loop_body ops t e)"
  by (simp add: loop_body_def)

lemma loop_pass_world: "world (loop_pass ops t e) = world (loop_body ops t e)"
  by (simp add: loop_body_def)

subsection \<open>What the loop and the run leave unchanged\<close>

lemma exec_process_bars_frame [simp]:
  "iteration (exec_process_bars ops bars e) = iteration e"
  "test_clock (exec_process_bars ops bars e) = test_clock e"
  "clock (exec_process_bars ops bars e) = clock e"
  "created_time (exec_process_bars ops bars e) = created_time e"
  "time_to_initialize (exec_process_bars ops bars e) = time_to_initialize e"
  "config (exec_process_bars ops bars e) = config e"
  "instruments (exec_process_bars ops bars e) = instruments e"
  "clock_of (exec_process_bars ops bars e) = clock_of e"
  "clocks_made (exec_process_bars ops bars e) = clocks_made e"
  "logger (exec_process_bars ops bars e) = logger e"
  "test_logger (exec_process_bars ops bars e) = test_logger e"
  by (induction ops bars e rule: exec_process_bars.induct) simp_all

lemma iterate_strategies_frame [simp]:
  "iteration (iterate_strategies ops ts ss e) = iteration e"
  "test_clock (iterate_strategies ops ts ss e) = test_clock e"
  "clock (iterate_strategies ops ts ss e) = clock e"
  "created_time (iterate_strategies ops ts ss e) = created_time e"
  "time_to_initialize (iterate_strategies ops ts ss e) = time_to_initialize e"
  "config (iterate_strategies ops ts ss e) = config e"
  "instruments (iterate_strategies ops ts ss e) = instruments e"
  "clock_of (iterate_strategies ops ts ss e) = clock_of e"
  "clocks_made (iterate_strategies ops ts ss e) = clocks_made e"
  "logger (iterate_strategies ops ts ss e) = logger e"
  "test_logger (iterate_strategies ops ts ss e) = test_logger e"
  by (induction ss arbitrary: e) simp_all

lemma process_one_tick_frame [simp]:
  "iteration (process_one_tick ops k e) = iteration e"
  "test_clock (process_one_tick ops k e) = test_clock e"
  "clock (process_one_tick ops k e) = clock e"
  "created_time (process_one_tick ops k e) = created_time e"
  "time_to_initialize (process_one_tick ops k e) = time_to_initialize e"
  "config (process_one_tick ops k e) = config e"
  "instruments (process_one_tick ops k e) = instruments e"
  "clock_of (process_one_tick ops k e) = clock_of e"
  "clocks_made (process_one_tick ops k e) = clocks_made e"
  "logger (process_one_tick ops k e) = logger e"
  "test_logger (process_one_tick ops k e) = test_logger e"
  by (simp_all add: process_one_tick_def Let_def)

lemma process_ticks_frame [simp]:
  "iteration (process_ticks ops ks e) = iteration e"
  "test_clock (process_ticks ops ks e) = test_clock e"
  "clock (process_ticks ops ks e) = clock e"
  "created_time (process_ticks ops ks e) = created_time e"
  "time_to_initialize (process_ticks ops ks e) = time_to_initialize e"
  "config (process_ticks ops ks e) = config e"
  "instruments (process_ticks ops ks e) = instruments e"
  "clock_of (process_ticks ops ks e) = clock_of e"
  "clocks_made (process_ticks ops ks e) = clocks_made e"
  "logger (process_ticks ops ks e) = logger e"
  "test_logger (process_ticks ops ks e) = test_logger e"
  by (induction ks arbitrary: e) simp_all

lemma loop_body_frame [simp]:
  "iteration (loop_body ops t e) = iteration e + 1"
  "test_clock (loop_body ops t e) = test_clock e"
  "clock (loop_body ops t e) = clock e"
  "created_time (loop_body ops t e) = created_time e"
  "time_to_initialize (loop_body ops t e) = time_to_initialize e"
  "config (loop_body ops t e) = config e"
  "instruments (loop_body ops t e) = instruments e"
  "clock_of (loop_body ops t e) = clock_of e"
  "clocks_made (loop_body ops t e) = clocks_made e"
  "logger (loop_body ops t e) = logger e"
  "test_logger (loop_body ops t e) = test_logger e"
  by (simp_all add: loop_body_def loop_pass_def step_end_def ticks_phase_def bars_phase_def Let_def)

lemma loop_pass_frame [simp]:
  "iteration (loop_pass ops t e) = iteration e"
  by (simp add: loop_pass_def step_end_def ticks_phase_def bars_phase_def Let_def)

lemma loop_steps_frame [simp]:
  "iteration (loop_steps ops time_step n t e) = iteration e + of_nat n"
  "test_clock (loop_steps ops time_step n t e) = test_clock e"
  "clock (loop_steps ops time_step n t e) = clock e"
  "created_time (loop_steps ops time_step n t e) = created_time e"
  "time_to_initialize (loop_steps ops time_step n t e) = time_to_initialize e"
  "config (loop_steps ops time_step n t e) = config e"
  "instruments (loop_steps ops time_step n t e) = instruments e"
  "clock_of (loop_steps ops time_step n t e) = clock_of e"
  "clocks_made (loop_steps ops time_step n t e) = clocks_made e"
  "logger (loop_steps ops time_step n t e) = logger e"
  "test_logger (loop_steps ops time_step n t e) = test_logger e"
  by (induction n arbitrary: t e) simp_all

lemma change_strategy_clocks_and_loggers_frame [simp]:
  "iteration (change_strategy_clocks_and_loggers ops ss e) = iteration e"
  "test_clock (change_strategy_clocks_and_loggers ops ss e) = test_clock e"
  "clock (change_strategy_clocks_and_loggers ops ss e) = clock e"
  "created_time (change_strategy_clocks_and_loggers ops ss e) = created_time e"
  "time_to_initialize (change_strategy_clocks_and_loggers ops ss e) = time_to_initialize e"
  "config (change_strategy_clocks_and_loggers ops ss e) = config e"
  "instruments (change_strategy_clocks_and_loggers ops ss e) = instruments e"
  "clocks_made (change_strategy_clocks_and_loggers ops ss e) = clocks_made e + length ss"
  "logger (change_strategy_clocks_and_loggers ops ss e) = logger e"
  "test_logger (change_strategy_clocks_and_loggers ops ss e) = test_logger e"
  by (induction ss arbitrary: e) (simp_all add: Let_def)

lemma run_setup_frame [simp]:
  "iteration (run_setup ops start stop time_step fm rs e) = iteration e"
  "test_clock (run_setup ops start stop time_step fm rs e) = test_clock e"
  "clock (run_setup ops start stop time_step fm rs e) = clock e"
  "created_time (run_setup ops start stop time_step fm rs e) = created_time e"
  "time_to_initialize (run_setup ops start stop time_step fm rs e) = time_to_initialize e"
  "config (run_setup ops start stop time_step fm rs e) = config e"
  "instruments (run_setup ops start stop time_step fm rs e) = instruments e"
  by (simp_all add: run_setup_def Let_def backtest_header_def split: option.split)

lemma run_finish_frame [simp]:
  "iteration (run_finish ops start stop time_step pls rs wn e) = iteration e"
  "test_clock (run_finish ops start stop time_step pls rs wn e) = test_clock e"
  "clock (run_finish ops start stop time_step pls rs wn e) = clock e"
  "created_time (run_finish ops start stop time_step pls rs wn e) = created_time e"
  "time_to_initialize (run_finish ops start stop time_step pls rs wn e) = time_to_initialize e"
  "config (run_finish ops start stop time_step pls rs wn e) = config e"
  "instruments (run_finish ops start stop time_step pls rs wn e) = instruments e"
  "clock_of (run_finish ops start stop time_step pls rs wn e) = clock_of e"
  "clocks_made (run_finish ops start stop time_step pls rs wn e) = clocks_made e"
  "calls (run_finish ops start stop time_step pls rs wn e) = calls e @ [TraderStop]"
  "world (run_finish ops start stop time_step pls rs wn e) = perform ops TraderStop (world e)"
  by (simp_all add: run_finish_def Let_def backtest_footer_def)

lemma run_body_entered:
  assumes "run_accepts ops start stop e" and "clocks_at_start ops start stop time_step fm rs e"
  shows "run_body ops start stop time_step fm pls rs wn e
         = (case run_loop ops stop time_step start (run_setup ops start stop time_step fm rs e) of
              None \<Rightarrow> None
            | Some (Inl raised) \<Rightarrow> Some (Inl raised)
            | Some (Inr e2) \<Rightarrow> Some (Inr (run_finish ops start stop time_step pls rs wn e2)))"
  using assms by (simp add: run_body_def run_accepts_def clocks_at_start_def Let_def)

lemma run_of_loop:
  assumes "run_accepts ops start stop e" and "clocks_at_start ops start stop time_step fm rs e"
  shows "run_loop ops stop time_step start (run_setup ops start stop time_step fm rs e) = None
         \<Longrightarrow> run ops start stop time_step fm pls rs wn e = None"
    and "run_loop ops stop time_step start (run_setup ops start stop time_step fm rs e)
           = Some (Inl (err, e2))
         \<Longrightarrow> run ops start stop time_step fm pls rs wn e = Some (Some err, e2)"
    and "run_loop ops stop time_step start (run_setup ops start stop time_step fm rs e)
           = Some (Inr e2)
         \<Longrightarrow> run ops start stop time_step fm pls rs wn e
             = Some (None, run_finish ops start stop time_step pls rs wn e2)"
  by (simp_all add: run_def run_body_entered [OF assms])

text \<open>Which number of passes fits the bounds.\<close>

lemma passes_due_unique:
  assumes "0 < k" and "time + (int k - 1) * time_step \<le> stop"
    and "stop < time + int k * time_step"
  shows "0 < time_step" and "passes_due stop time_step time = k"
proof -
  have "time + (int k - 1) * time_step < time + int k * time_step"
    using assms(2,3) by (rule le_less_trans)
  then show pos: "0 < time_step" by (simp add: algebra_simps)
  define r where "r = stop - time - (int k - 1) * time_step"
  have r: "0 \<le> r" "r < time_step" using assms(2,3) by (simp_all add: r_def algebra_simps)
  have "stop - time = time_step * (int k - 1) + r" by (simp add: r_def)
  then have "(stop - time) div time_step = int k - 1"
    using r by (rule int_div_pos_eq)
  moreover have "time \<le> stop"
  proof -
    have "0 \<le> (int k - 1) * time_step" using assms(1) pos by simp
    with assms(2) show ?thesis by simp
  qed
  ultimately show "passes_due stop time_step time = k" by (simp add: passes_due_def)
qed

lemma passes_due_bounds:
  assumes "time \<le> stop" and "0 < time_step"
  shows "0 < passes_due stop time_step time"
    and "time + (int (passes_due stop time_step time) - 1) * time_step \<le> stop"
    and "stop < time + int (passes_due stop time_step time) * time_step"
proof -
  define q r where "q = (stop - time) div time_step" and "r = (stop - time) mod time_step"
  have d: "stop - time = q * time_step + r" by (simp add: q_def r_def)
  have r: "0 \<le> r" "r < time_step" using assms(2) by (simp_all add: r_def)
  have q: "0 \<le> q" using assms by (simp add: q_def pos_imp_zdiv_nonneg_iff)
  then have n: "int (passes_due stop time_step time) = q + 1"
    using assms(1) by (simp add: passes_due_def q_def)
  have a: "time + q * time_step \<le> stop" "stop < time + (q + 1) * time_step"
    using d r by (simp_all add: algebra_simps)
  show "0 < passes_due stop time_step time" using n q by simp
  show "time + (int (passes_due stop time_step time) - 1) * time_step \<le> stop"
    unfolding n using a(1) by simp
  show "stop < time + int (passes_due stop time_step time) * time_step"
    unfolding n using a(2) by simp
qed

text \<open>A call of \<^verbatim>\<open>run\<close> whose statements all ran.\<close>

lemma run_completed:
  assumes "run ops start stop time_step fm pls rs wn e = Some (None, e')"
  shows "run_accepts ops start stop e" and "clocks_at_start ops start stop time_step fm rs e"
    and "0 < time_step"
    and "e' = run_finish ops start stop time_step pls rs wn
                (loop_steps ops time_step (passes_due stop time_step start) start
                   (run_setup ops start stop time_step fm rs e))"
proof -
  let ?e1 = "run_setup ops start stop time_step fm rs e"
  show acc: "run_accepts ops start stop e"
    using assms
    by (auto simp: run_def run_body_def run_accepts_def Let_def split: if_splits)
  show at: "clocks_at_start ops start stop time_step fm rs e"
    using assms
    by (auto simp: run_def run_body_def clocks_at_start_def Let_def split: if_splits)
  from assms obtain e2 where l: "run_loop ops stop time_step start ?e1 = Some (Inr e2)"
    and e': "e' = run_finish ops start stop time_step pls rs wn e2"
    by (auto simp: run_def run_body_entered [OF acc at] split: option.splits sum.splits)
  from run_loop_ended [OF l] obtain k where "loop_ended ops stop time_step start ?e1 k (Inr e2)" ..
  then have k: "e2 = loop_steps ops time_step k start ?e1" "stop < start + int k * time_step"
    "0 < k \<longrightarrow> start + (int k - 1) * time_step \<le> stop"
    by (simp_all add: loop_ended_def)
  have "start < stop" using acc by (simp add: run_accepts_def Let_def)
  with k(2) have pos: "0 < k" by (cases k) simp_all
  with k(3) have le: "start + (int k - 1) * time_step \<le> stop" by simp
  from passes_due_unique [OF pos le k(2)]
  show "0 < time_step" and "e' = run_finish ops start stop time_step pls rs wn
                (loop_steps ops time_step (passes_due stop time_step start) start ?e1)"
    using e' k(1) by simp_all
qed

text \<open>How a call of \<^verbatim>\<open>run\<close> ends, by the sign of the step.\<close>

lemma run_returns:
  assumes "run_accepts ops start stop e" and "clocks_at_start ops start stop time_step fm rs e"
    and "0 < time_step" and "0 \<le> start"
    and "start + int (passes_due stop time_step start) * time_step \<le> datetime_max"
  shows "run ops start stop time_step fm pls rs wn e
         = Some (None, run_finish ops start stop time_step pls rs wn
                   (loop_steps ops time_step (passes_due stop time_step start) start
                      (run_setup ops start stop time_step fm rs e)))"
proof -
  let ?e1 = "run_setup ops start stop time_step fm rs e"
  let ?n = "passes_due stop time_step start"
  have lt: "start < stop" using assms(1) by (simp add: run_accepts_def Let_def)
  then have le: "start \<le> stop" by simp
  from run_loop_ends_forward [OF assms(3), of ops stop start ?e1]
  obtain r where r: "run_loop ops stop time_step start ?e1 = Some r" ..
  from run_loop_ended [OF r] obtain k where k: "loop_ended ops stop time_step start ?e1 k r" ..
  have "r = Inr (loop_steps ops time_step ?n start ?e1)"
  proof (cases r)
    case (Inr e2)
    with k have k2: "e2 = loop_steps ops time_step k start ?e1"
      "stop < start + int k * time_step"
      "0 < k \<longrightarrow> start + (int k - 1) * time_step \<le> stop"
      by (simp_all add: loop_ended_def)
    from lt k2(2) have pos: "0 < k" by (cases k) simp_all
    with k2(3) have "start + (int k - 1) * time_step \<le> stop" by simp
    from passes_due_unique(2) [OF pos this k2(2)] k2(1) Inr show ?thesis by simp
  next
    case (Inl x)
    with k have b: "start + int k * time_step \<le> stop"
      "\<not> valid_datetime (start + (int k + 1) * time_step)"
      by (auto simp: loop_ended_def)
    have "int k * time_step \<le> stop - start" using b(1) by simp
    then have "(int k * time_step) div time_step \<le> (stop - start) div time_step"
      using assms(3) by (rule zdiv_mono1)
    then have "int k \<le> (stop - start) div time_step" using assms(3) by simp
    then have "int k + 1 \<le> int ?n" using le by (simp add: passes_due_def)
    then have "(int k + 1) * time_step \<le> int ?n * time_step"
      using assms(3) by (simp add: mult_right_mono)
    with assms(5) have "start + (int k + 1) * time_step \<le> datetime_max" by simp
    moreover have "0 \<le> start + (int k + 1) * time_step" using assms(3,4) by simp
    ultimately show ?thesis using b(2) by (simp add: valid_datetime_def)
  qed
  with r show ?thesis by (simp add: run_of_loop(3) [OF assms(1,2)])
qed

lemma run_overflows:
  assumes "run_accepts ops start stop e" and "clocks_at_start ops start stop time_step fm rs e"
    and "0 < time_step" and "0 \<le> start" and "stop \<le> datetime_max"
    and "datetime_max < start + int (passes_due stop time_step start) * time_step"
  shows "run ops start stop time_step fm pls rs wn e
         = Some (Some OverflowError,
                 loop_pass ops (start + int (passes_due stop time_step start - 1) * time_step)
                   (loop_steps ops time_step (passes_due stop time_step start - 1) start
                      (run_setup ops start stop time_step fm rs e)))"
proof -
  let ?e1 = "run_setup ops start stop time_step fm rs e"
  let ?n = "passes_due stop time_step start"
  have lt: "start < stop" using assms(1) by (simp add: run_accepts_def Let_def)
  from run_loop_ends_forward [OF assms(3), of ops stop start ?e1]
  obtain r where r: "run_loop ops stop time_step start ?e1 = Some r" ..
  from run_loop_ended [OF r] obtain k where k: "loop_ended ops stop time_step start ?e1 k r" ..
  have "r = Inl (OverflowError,
                 loop_pass ops (start + int (?n - 1) * time_step)
                   (loop_steps ops time_step (?n - 1) start ?e1))"
  proof (cases r)
    case (Inr e2)
    with k have k2: "stop < start + int k * time_step"
      "0 < k \<longrightarrow> start + (int k - 1) * time_step \<le> stop \<and>
         valid_datetime (start + int k * time_step)"
      by (simp_all add: loop_ended_def)
    from lt k2(1) have pos: "0 < k" by (cases k) simp_all
    with k2(2) have le: "start + (int k - 1) * time_step \<le> stop"
      and v: "valid_datetime (start + int k * time_step)" by simp_all
    from passes_due_unique(2) [OF pos le k2(1)] v assms(6) show ?thesis
      by (simp add: valid_datetime_def)
  next
    case (Inl x)
    with k have b: "x = (OverflowError,
        loop_pass ops (start + int k * time_step) (loop_steps ops time_step k start ?e1))"
      "start + int k * time_step \<le> stop"
      "\<not> valid_datetime (start + (int k + 1) * time_step)"
      by (auto simp: loop_ended_def)
    have "0 \<le> start + (int k + 1) * time_step" using assms(3,4) by simp
    with b(3) have "datetime_max < start + (int k + 1) * time_step"
      by (simp add: valid_datetime_def)
    with assms(5) have past: "stop < start + int (Suc k) * time_step"
      by (simp add: algebra_simps)
    have "start + (int (Suc k) - 1) * time_step \<le> stop" using b(2) by simp
    from passes_due_unique(2) [OF _ this past] have "?n = Suc k" by simp
    with b(1) Inl show ?thesis by simp
  qed
  with r show ?thesis by (simp add: run_of_loop(2) [OF assms(1,2)])
qed

lemma run_backward:
  assumes "run_accepts ops start stop e" and "clocks_at_start ops start stop time_step fm rs e"
    and "time_step < 0" and "valid_datetime start"
  shows "run ops start stop time_step fm pls rs wn e
         = Some (Some OverflowError,
                 loop_pass ops (start + int (nat (start div (- time_step))) * time_step)
                   (loop_steps ops time_step (nat (start div (- time_step))) start
                      (run_setup ops start stop time_step fm rs e)))"
proof -
  let ?e1 = "run_setup ops start stop time_step fm rs e"
  have lt: "start < stop" using assms(1) by (simp add: run_accepts_def Let_def)
  from run_loop_ends_backward [OF assms(3), of ops stop start ?e1]
  obtain r where r: "run_loop ops stop time_step start ?e1 = Some r" ..
  from run_loop_ended [OF r] obtain k where k: "loop_ended ops stop time_step start ?e1 k r" ..
  have "r = Inl (OverflowError,
                 loop_pass ops (start + int (nat (start div (- time_step))) * time_step)
                   (loop_steps ops time_step (nat (start div (- time_step))) start ?e1))"
  proof (cases r)
    case (Inr e2)
    with k have k2: "stop < start + int k * time_step"
      "0 < k \<longrightarrow> start + (int k - 1) * time_step \<le> stop"
      by (simp_all add: loop_ended_def)
    from lt k2(1) have pos: "0 < k" by (cases k) simp_all
    with k2(2) have "start + (int k - 1) * time_step \<le> stop" by simp
    from passes_due_unique(1) [OF pos this k2(1)] assms(3) show ?thesis by simp
  next
    case (Inl x)
    with k have b: "x = (OverflowError,
        loop_pass ops (start + int k * time_step) (loop_steps ops time_step k start ?e1))"
      "0 < k \<longrightarrow> valid_datetime (start + int k * time_step)"
      "\<not> valid_datetime (start + (int k + 1) * time_step)"
      by (auto simp: loop_ended_def)
    have v: "valid_datetime (start + int k * time_step)"
      using b(2) assms(4) by (cases k) simp_all
    have "(int k + 1) * time_step \<le> 0" using assms(3) by (simp add: mult_nonneg_nonpos)
    then have "start + (int k + 1) * time_step \<le> datetime_max"
      using assms(4) by (simp add: valid_datetime_def)
    with b(3) have neg: "start + (int k + 1) * time_step < 0" by (simp add: valid_datetime_def)
    define r' where "r' = start + int k * time_step"
    have "0 \<le> r'" using v by (simp add: r'_def valid_datetime_def)
    moreover have "r' < - time_step" using neg by (simp add: r'_def algebra_simps)
    moreover have "start = (- time_step) * int k + r'" by (simp add: r'_def)
    ultimately have "start div (- time_step) = int k" by (intro int_div_pos_eq)
    with b(1) Inl show ?thesis by simp
  qed
  with r show ?thesis by (simp add: run_of_loop(2) [OF assms(1,2)])
qed

lemma run_diverges:
  assumes "run_accepts ops start stop e" and "clocks_at_start ops start stop 0 fm rs e"
    and "valid_datetime start"
  shows "run ops start stop 0 fm pls rs wn e = None"
proof -
  have "start \<le> stop" using assms(1) by (simp add: run_accepts_def Let_def)
  from run_loop_diverges [OF this assms(3)] show ?thesis
    by (rule run_of_loop(1) [OF assms(1,2)])
qed

subsection \<open>Readings of the calls of a run\<close>

lemma new_calls_append: "calls e' = calls e @ xs \<Longrightarrow> new_calls e e' = xs"
  by (simp add: new_calls_def)

lemma concat_map_ticks_calls:
  assumes "length bs = length ks"
    and "\<And>k b. b \<in> set bs \<Longrightarrow> concat (map g (tick_calls ts k b)) = h k"
  shows "concat (map g (ticks_calls ts ks bs)) = concat (map h ks)"
  using assms
proof (induction bs ks rule: list_induct2)
  case Nil
  show ?case by (simp add: ticks_calls_def)
next
  case (Cons b bs k ks)
  then have "concat (map g (ticks_calls ts ks bs)) = concat (map h ks)" by simp
  moreover have "concat (map g (tick_calls ts k b)) = h k" using Cons.prems by simp
  ultimately show ?case by (simp add: ticks_calls_def)
qed

lemma concat_map_bars_calls:
  assumes "g (DataGetNextMinuteBars t) = []"
    and "\<And>s bid_bar ask_bar. g (ExecProcessBars s bid_bar ask_bar) = []"
  shows "concat (map g (bars_calls t bars)) = []"
  using assms by (induction bars) (auto simp: bars_calls_def)

lemma concat_map_Nil: "concat (map (\<lambda>k. []) ks) = []"
  by (induction ks) simp_all

lemma bars_iterated_ticks_calls:
  assumes "length bs = length ks"
  shows "concat (map bars_iterated (ticks_calls ts ks bs)) = []"
proof -
  have "concat (map bars_iterated (ticks_calls ts ks bs)) = concat (map (\<lambda>k. []) ks)"
    by (rule concat_map_ticks_calls [OF assms]) (simp add: tick_calls_def o_def)
  then show ?thesis by (simp only: concat_map_Nil)
qed

lemma bars_iterated_bars_calls: "concat (map bars_iterated (bars_calls t bars)) = []"
  by (rule concat_map_bars_calls) simp_all

lemma clock_set_ticks_calls:
  assumes "length bs = length ks"
  shows "concat (map clock_set (ticks_calls ts ks bs)) = map ts ks"
proof -
  have "concat (map clock_set (ticks_calls ts ks bs)) = concat (map (\<lambda>k. [ts k]) ks)"
    by (rule concat_map_ticks_calls [OF assms]) (simp add: tick_calls_def o_def)
  then show ?thesis by simp
qed

lemma clock_set_bars_calls: "concat (map clock_set (bars_calls t bars)) = []"
  by (rule concat_map_bars_calls) simp_all

lemma step_boundaries_pass_calls:
  "length bs = length ks \<Longrightarrow> step_boundaries (pass_calls m ts t bars ks bs c) = [t]"
  by (cases m)
     (simp_all add: step_boundaries_def pass_calls_def bars_iterated_ticks_calls
        bars_iterated_bars_calls)

lemma clock_assignments_pass_calls:
  "length bs = length ks \<Longrightarrow>
   clock_assignments (pass_calls m ts t bars ks bs c) = map ts ks @ [t]"
  by (cases m)
     (simp_all add: clock_assignments_def pass_calls_def clock_set_ticks_calls
        clock_set_bars_calls)

lemma step_boundaries_loop_body:
  "step_boundaries (calls (loop_body ops t e)) = step_boundaries (calls e) @ [t]"
proof -
  from loop_body_calls [of ops t e] obtain bs where
    "length bs = length (iterate_ticks ops t (world (bars_phase ops t e))) \<and>
       (mode_fixed ops \<longrightarrow> (\<forall>b\<in>set bs. fst b = use_ticks ops (world e))) \<and>
       calls (loop_body ops t e)
       = calls e @ pass_calls (use_ticks ops (world e)) (tick_timestamp ops) t
           (get_next_minute_bars ops t (world e))
           (iterate_ticks ops t (world (bars_phase ops t e))) bs
           (iterate_bars ops t (world (set_time ops t (ticks_phase ops t (bars_phase ops t e)))))" ..
  then show ?thesis
    using step_boundaries_pass_calls [of bs "iterate_ticks ops t (world (bars_phase ops t e))"]
    by (simp add: step_boundaries_def)
qed

lemma clock_assignments_loop_body:
  "clock_assignments (calls (loop_body ops t e))
   = clock_assignments (calls e)
       @ map (tick_timestamp ops) (iterate_ticks ops t (world (bars_phase ops t e))) @ [t]"
proof -
  from loop_body_calls [of ops t e] obtain bs where
    "length bs = length (iterate_ticks ops t (world (bars_phase ops t e))) \<and>
       (mode_fixed ops \<longrightarrow> (\<forall>b\<in>set bs. fst b = use_ticks ops (world e))) \<and>
       calls (loop_body ops t e)
       = calls e @ pass_calls (use_ticks ops (world e)) (tick_timestamp ops) t
           (get_next_minute_bars ops t (world e))
           (iterate_ticks ops t (world (bars_phase ops t e))) bs
           (iterate_bars ops t (world (set_time ops t (ticks_phase ops t (bars_phase ops t e)))))" ..
  then show ?thesis
    using clock_assignments_pass_calls [of bs "iterate_ticks ops t (world (bars_phase ops t e))"]
    by (simp add: clock_assignments_def)
qed

lemma step_boundaries_loop_steps:
  "step_boundaries (calls (loop_steps ops time_step n t e))
   = step_boundaries (calls e) @ map (\<lambda>i. t + int i * time_step) [0..<n]"
proof (induction n arbitrary: t e)
  case 0
  show ?case by simp
next
  case (Suc n)
  have "map (\<lambda>i. t + int i * time_step) [0..<Suc n]
        = t # map (\<lambda>i. (t + time_step) + int i * time_step) [0..<n]"
    by (simp add: upt_conv_Cons map_Suc_upt [symmetric] algebra_simps del: upt_Suc)
  then show ?case using Suc.IH [of "t + time_step" "loop_body ops t e"]
    by (simp add: step_boundaries_loop_body del: upt_Suc)
qed

lemma change_strategy_clocks_and_loggers_calls:
  "calls (change_strategy_clocks_and_loggers ops ss e)
   = calls e @ concat (map2 (\<lambda>s n. [StrategyChangeClock s (TestClockRef n), StrategyChangeLogger s])
                        ss [clocks_made e ..< clocks_made e + length ss])"
proof (induction ss arbitrary: e)
  case Nil
  show ?case by simp
next
  case (Cons s ss)
  have "[clocks_made e ..< clocks_made e + length (s # ss)]
        = clocks_made e # [Suc (clocks_made e) ..< Suc (clocks_made e) + length ss]"
    by (simp add: upt_conv_Cons del: upt_Suc)
  then show ?case by (simp add: Let_def Cons.IH del: upt_Suc)
qed

lemma run_setup_calls:
  "calls (run_setup ops start stop time_step fm rs e)
   = calls e @ setup_calls fm start time_step
       (strategies ops (perform ops (ClockSetTime start)
          (case fm of None \<Rightarrow> world e | Some f \<Rightarrow> perform ops (ExecChangeFillModel f) (world e))))
       (clocks_made e)"
  by (cases fm)
     (simp_all add: run_setup_def Let_def backtest_header_def setup_calls_def
        change_strategy_clocks_and_loggers_calls)

lemma step_boundaries_setup_calls [simp]: "step_boundaries (setup_calls fm start time_step ss n) = []"
  by (cases fm)
     (simp_all add: step_boundaries_def setup_calls_def o_def split_def map_concat)

subsection \<open>A call of \<^verbatim>\<open>run\<close> that returns\<close>

lemma step_boundaries_append [simp]:
  "step_boundaries (xs @ ys) = step_boundaries xs @ step_boundaries ys"
  by (simp add: step_boundaries_def)

lemma clock_assignments_append [simp]:
  "clock_assignments (xs @ ys) = clock_assignments xs @ clock_assignments ys"
  by (simp add: clock_assignments_def)

lemma loop_body_extends: "\<exists>xs. calls (loop_body ops t e) = calls e @ xs"
  using loop_body_calls [of ops t e] by (elim exE conjE) (rule exI)

lemma loop_steps_extends: "\<exists>xs. calls (loop_steps ops time_step n t e) = calls e @ xs"
proof (induction n arbitrary: t e)
  case 0
  show ?case by simp
next
  case (Suc n)
  from loop_body_extends [of ops t e] obtain xs where xs: "calls (loop_body ops t e) = calls e @ xs" ..
  from Suc.IH [of "t + time_step" "loop_body ops t e"] obtain ys where
    "calls (loop_steps ops time_step n (t + time_step) (loop_body ops t e))
     = calls (loop_body ops t e) @ ys" ..
  with xs have "calls (loop_steps ops time_step (Suc n) t e) = calls e @ (xs @ ys)" by simp
  then show ?case by (rule exI)
qed

lemma run_setup_new_calls:
  "new_calls e (run_setup ops start stop time_step fm rs e)
   = setup_calls fm start time_step
       (strategies ops (perform ops (ClockSetTime start)
          (case fm of None \<Rightarrow> world e | Some f \<Rightarrow> perform ops (ExecChangeFillModel f) (world e))))
       (clocks_made e)"
  by (rule new_calls_append) (rule run_setup_calls)

lemma loop_steps_snoc:
  "loop_steps ops time_step (Suc k) t e
   = loop_body ops (t + int k * time_step) (loop_steps ops time_step k t e)"
proof (induction k arbitrary: t e)
  case 0
  show ?case by simp
next
  case (Suc k)
  have "t + time_step + int k * time_step = t + int (Suc k) * time_step"
    by (simp add: algebra_simps)
  with Suc [of "t + time_step" "loop_body ops t e"] show ?case by simp
qed

lemma loop_pass_after_steps:
  "0 < n \<Longrightarrow>
   calls (loop_pass ops (t + int (n - 1) * time_step) (loop_steps ops time_step (n - 1) t e))
   = calls (loop_steps ops time_step n t e)"
  using loop_steps_snoc [of ops time_step "n - 1" t e] by (simp add: loop_pass_calls)

text \<open>The calls of a call of \<^verbatim>\<open>run\<close> whose statements all ran.\<close>

lemma run_completed_new_calls:
  assumes "run ops start stop time_step fm pls rs wn e = Some (None, e')"
  shows "new_calls e e'
         = new_calls e (run_setup ops start stop time_step fm rs e)
           @ new_calls (run_setup ops start stop time_step fm rs e)
               (loop_steps ops time_step (passes_due stop time_step start) start
                  (run_setup ops start stop time_step fm rs e))
           @ [TraderStop]"
proof -
  let ?e1 = "run_setup ops start stop time_step fm rs e"
  let ?e2 = "loop_steps ops time_step (passes_due stop time_step start) start ?e1"
  from loop_steps_extends [of ops time_step "passes_due stop time_step start" start ?e1]
  obtain ys where ys: "calls ?e2 = calls ?e1 @ ys" ..
  have c1: "calls ?e1 = calls e @ new_calls e ?e1"
    by (simp add: run_setup_calls run_setup_new_calls)
  have c2: "new_calls ?e1 ?e2 = ys" using ys by (rule new_calls_append)
  show ?thesis
    unfolding run_completed(4) [OF assms] c2
    by (rule new_calls_append) (simp add: ys c1 [symmetric])
qed

lemma loop_steps_calls_split:
  "calls (loop_steps ops time_step n t e) = calls e @ new_calls e (loop_steps ops time_step n t e)"
  using loop_steps_extends [of ops time_step n t e] by (auto simp: new_calls_append)

lemma new_calls_trans:
  "calls e1 = calls e @ xs \<Longrightarrow> calls e2 = calls e1 @ ys \<Longrightarrow> new_calls e e2 = xs @ ys"
  by (simp add: new_calls_def)

lemma loop_body_calls_split:
  "calls (loop_body ops t e) = calls e @ new_calls e (loop_body ops t e)"
  using loop_body_extends [of ops t e] by (auto simp: new_calls_append)

text \<open>\<^verbatim>\<open>trader.stop()\<close> is called after the loop only.\<close>

lemma no_stop_ticks_calls: "TraderStop \<notin> set (ticks_calls ts ks bs)"
  by (auto simp: ticks_calls_def tick_calls_def split: if_splits)

lemma no_stop_pass_calls: "TraderStop \<notin> set (pass_calls m ts t bars ks bs c)"
  using no_stop_ticks_calls [of ts ks bs]
  by (auto simp: pass_calls_def bars_calls_def)

lemma no_stop_setup_calls: "TraderStop \<notin> set (setup_calls fm start time_step ss n)"
  by (cases fm) (auto simp: setup_calls_def)

lemma no_stop_loop_body: "TraderStop \<notin> set (new_calls e (loop_body ops t e))"
proof -
  from loop_body_calls [of ops t e] obtain bs where
    "length bs = length (iterate_ticks ops t (world (bars_phase ops t e))) \<and>
       (mode_fixed ops \<longrightarrow> (\<forall>b\<in>set bs. fst b = use_ticks ops (world e))) \<and>
       calls (loop_body ops t e)
       = calls e @ pass_calls (use_ticks ops (world e)) (tick_timestamp ops) t
           (get_next_minute_bars ops t (world e))
           (iterate_ticks ops t (world (bars_phase ops t e))) bs
           (iterate_bars ops t (world (set_time ops t (ticks_phase ops t (bars_phase ops t e)))))" ..
  then have "new_calls e (loop_body ops t e)
       = pass_calls (use_ticks ops (world e)) (tick_timestamp ops) t
           (get_next_minute_bars ops t (world e))
           (iterate_ticks ops t (world (bars_phase ops t e))) bs
           (iterate_bars ops t (world (set_time ops t (ticks_phase ops t (bars_phase ops t e)))))"
    by (simp add: new_calls_append)
  then show ?thesis by (simp only: no_stop_pass_calls not_False_eq_True)
qed

lemma no_stop_loop_steps: "TraderStop \<notin> set (new_calls e (loop_steps ops time_step n t e))"
proof (induction n arbitrary: t e)
  case 0
  show ?case by (simp add: new_calls_def)
next
  case (Suc n)
  let ?e1 = "loop_body ops t e"
  have "new_calls e (loop_steps ops time_step (Suc n) t e)
        = new_calls e ?e1 @ new_calls ?e1 (loop_steps ops time_step n (t + time_step) ?e1)"
    by (rule new_calls_trans [OF loop_body_calls_split])
       (simp add: loop_steps_calls_split [symmetric])
  then show ?case using no_stop_loop_body [of e ops t] Suc [of ?e1 "t + time_step"] by simp
qed

lemma run_completed_calls:
  assumes "run ops start stop time_step fm pls rs wn e = Some (None, e')"
  shows "calls e' = calls e @ new_calls e e'"
proof -
  let ?e1 = "run_setup ops start stop time_step fm rs e"
  let ?e2 = "loop_steps ops time_step (passes_due stop time_step start) start ?e1"
  from loop_steps_extends [of ops time_step "passes_due stop time_step start" start ?e1]
  obtain ys where ys: "calls ?e2 = calls ?e1 @ ys" ..
  have "calls e' = calls e @ (new_calls e ?e1 @ ys @ [TraderStop])"
    unfolding run_completed(4) [OF assms]
    by (simp add: ys run_setup_calls run_setup_new_calls)
  then show ?thesis by (simp add: new_calls_def)
qed

lemma step_boundaries_new_loop_steps:
  "step_boundaries (new_calls e (loop_steps ops time_step n t e))
   = map (\<lambda>i. t + int i * time_step) [0..<n]"
proof -
  have "step_boundaries (calls (loop_steps ops time_step n t e))
        = step_boundaries (calls e) @ step_boundaries (new_calls e (loop_steps ops time_step n t e))"
    by (subst loop_steps_calls_split) simp
  then show ?thesis by (simp add: step_boundaries_loop_steps)
qed

lemma run_forward:
  assumes "run_accepts ops start stop e" and "clocks_at_start ops start stop time_step fm rs e"
    and "0 < time_step" and "0 \<le> start" and "stop \<le> datetime_max"
  shows "\<exists>x e' xs. run ops start stop time_step fm pls rs wn e = Some (x, e') \<and>
           x = (if start + int (passes_due stop time_step start) * time_step \<le> datetime_max
                then None else Some OverflowError) \<and>
           calls e' = calls e @ xs \<and>
           step_boundaries xs
             = map (\<lambda>i. start + int i * time_step) [0..<passes_due stop time_step start] \<and>
           iteration e'
             = iteration e + of_nat (if x = None then passes_due stop time_step start
                                     else passes_due stop time_step start - 1) \<and>
           (TraderStop \<in> set xs) = (x = None)"
proof -
  let ?n = "passes_due stop time_step start"
  let ?e1 = "run_setup ops start stop time_step fm rs e"
  let ?e2 = "loop_steps ops time_step ?n start ?e1"
  define ys where "ys = new_calls ?e1 ?e2"
  have ys: "calls ?e2 = calls ?e1 @ ys" unfolding ys_def by (rule loop_steps_calls_split)
  have b: "step_boundaries ys = map (\<lambda>i. start + int i * time_step) [0..<?n]"
    unfolding ys_def by (rule step_boundaries_new_loop_steps)
  have c: "calls ?e2 = calls e @ (new_calls e ?e1 @ ys)"
    using ys by (simp add: run_setup_calls run_setup_new_calls)
  have sb: "step_boundaries (new_calls e ?e1 @ ys)
        = map (\<lambda>i. start + int i * time_step) [0..<?n]"
    using b by (simp add: run_setup_new_calls)
  have ns: "TraderStop \<notin> set (new_calls e ?e1 @ ys)"
    using no_stop_loop_steps [of ?e1 ops time_step ?n start]
    by (simp add: ys_def run_setup_new_calls no_stop_setup_calls)
  have "start \<le> stop" using assms(1) by (simp add: run_accepts_def Let_def)
  from passes_due_bounds(1) [OF this assms(3)] have pos: "0 < ?n" .
  show ?thesis
  proof (cases "start + int ?n * time_step \<le> datetime_max")
    case True
    let ?e3 = "run_finish ops start stop time_step pls rs wn ?e2"
    have c3: "calls ?e3 = calls e @ (new_calls e ?e1 @ ys @ [TraderStop])" using c by simp
    have b3: "step_boundaries (new_calls e ?e1 @ ys @ [TraderStop])
        = map (\<lambda>i. start + int i * time_step) [0..<?n]"
      using b by (simp add: run_setup_new_calls) (simp add: step_boundaries_def)
    show ?thesis
    proof (intro exI conjI)
      show "run ops start stop time_step fm pls rs wn e = Some (None, ?e3)"
        by (rule run_returns [OF assms(1-4) True])
      show "None = (if start + int ?n * time_step \<le> datetime_max
                    then None else Some OverflowError)"
        using True by simp
      show "calls ?e3 = calls e @ (new_calls e ?e1 @ ys @ [TraderStop])" by (rule c3)
      show "step_boundaries (new_calls e ?e1 @ ys @ [TraderStop])
            = map (\<lambda>i. start + int i * time_step) [0..<?n]"
        by (rule b3)
      show "iteration ?e3 = iteration e + of_nat (if None = None then ?n else ?n - 1)"
        by simp
      show "(TraderStop \<in> set (new_calls e ?e1 @ ys @ [TraderStop])) = (None = None)"
        by simp
    qed
  next
    case False
    then have over: "datetime_max < start + int ?n * time_step" by simp
    let ?e3 = "loop_pass ops (start + int (?n - 1) * time_step)
                 (loop_steps ops time_step (?n - 1) start ?e1)"
    have c3: "calls ?e3 = calls e @ (new_calls e ?e1 @ ys)"
      unfolding loop_pass_after_steps [OF pos] by (rule c)
    show ?thesis
    proof (intro exI conjI)
      show "run ops start stop time_step fm pls rs wn e = Some (Some OverflowError, ?e3)"
        by (rule run_overflows [OF assms over])
      show "Some OverflowError = (if start + int ?n * time_step \<le> datetime_max
                    then None else Some OverflowError)"
        using False by simp
      show "calls ?e3 = calls e @ (new_calls e ?e1 @ ys)" by (rule c3)
      show "step_boundaries (new_calls e ?e1 @ ys)
            = map (\<lambda>i. start + int i * time_step) [0..<?n]"
        by (rule sb)
      show "iteration ?e3
            = iteration e + of_nat (if Some OverflowError = None then ?n else ?n - 1)"
        by simp
      show "(TraderStop \<in> set (new_calls e ?e1 @ ys)) = (Some OverflowError = None)"
        using ns by simp
    qed
  qed
qed

lemma run_completed_passes:
  assumes "run ops start stop time_step fm pls rs wn e = Some (None, e')"
  shows "step_boundaries (new_calls e e')
         = map (\<lambda>i. start + int i * time_step) [0..<passes_due stop time_step start]"
    and "loop_passes (new_calls e e') = passes_due stop time_step start"
    and "iteration e' = iteration e + of_nat (passes_due stop time_step start)"
proof -
  show b: "step_boundaries (new_calls e e')
         = map (\<lambda>i. start + int i * time_step) [0..<passes_due stop time_step start]"
    unfolding run_completed_new_calls [OF assms]
    by (simp add: run_setup_new_calls step_boundaries_new_loop_steps)
       (simp add: step_boundaries_def)
  then show "loop_passes (new_calls e e') = passes_due stop time_step start"
    by (simp add: loop_passes_def)
  show "iteration e' = iteration e + of_nat (passes_due stop time_step start)"
    by (simp add: run_completed(4) [OF assms])
qed

lemma passes_due_start:
  "start < stop \<Longrightarrow> 0 < time_step \<Longrightarrow>
   passes_due stop time_step start = nat ((stop - start) div time_step + 1)"
  by (simp add: passes_due_def)

lemma passes_due_start_int:
  assumes "start < stop" and "0 < time_step"
  shows "int (passes_due stop time_step start) = (stop - start) div time_step + 1"
proof -
  have "0 \<le> (stop - start) div time_step" using assms by (simp add: pos_imp_zdiv_nonneg_iff)
  then show ?thesis using assms by (simp add: passes_due_def)
qed

lemma reset_frame [simp]:
  "iteration (reset ops e) = 0"
  "test_clock (reset ops e) = test_clock e"
  "clock (reset ops e) = clock e"
  "created_time (reset ops e) = created_time e"
  "time_to_initialize (reset ops e) = time_to_initialize e"
  "config (reset ops e) = config e"
  "instruments (reset ops e) = instruments e"
  "clock_of (reset ops e) = clock_of e"
  "clocks_made (reset ops e) = clocks_made e"
  "calls (reset ops e) = calls e @ [DataReset, ExecReset, TraderReset]"
  "world (reset ops e)
   = perform ops TraderReset (perform ops ExecReset (perform ops DataReset (world e)))"
  by (simp_all add: reset_def Let_def)

lemma sint_add_of_nat:
  fixes a :: "32 word"
  assumes "sint a + int n < 2 ^ 31"
  shows "sint (a + of_nat n) = sint a + int n"
proof -
  have "- (2 ^ 31) \<le> sint a" using sint_ge [of a] by simp
  then have lo: "- (2 ^ 31) \<le> sint a + int n" by simp
  have "a + of_nat n = word_of_int (sint a + int n)" by simp
  then have "sint (a + of_nat n) = signed_take_bit 31 (sint a + int n)"
    by (simp only: sint_sbintrunc') simp
  also have "\<dots> = sint a + int n"
    using lo assms by (intro signed_take_bit_int_eq_self) simp_all
  finally show ?thesis .
qed

lemma engine_init_frame [simp]:
  "iteration (engine_init ops insts strats fm cfg w1 w2 w3 w0) = 0"
  "test_clock (engine_init ops insts strats fm cfg w1 w2 w3 w0) = TestClockRef 0"
  "clock (engine_init ops insts strats fm cfg w1 w2 w3 w0) = LiveClockRef 0"
  "created_time (engine_init ops insts strats fm cfg w1 w2 w3 w0) = w1"
  "time_to_initialize (engine_init ops insts strats fm cfg w1 w2 w3 w0) = w3 - w1"
  "config (engine_init ops insts strats fm cfg w1 w2 w3 w0) = cfg"
  "instruments (engine_init ops insts strats fm cfg w1 w2 w3 w0) = insts"
  "clocks_made (engine_init ops insts strats fm cfg w1 w2 w3 w0) = Suc (length strats)"
  by (simp_all add: engine_init_def Let_def)

lemma sample_accepts [simp]: "run_accepts (sample_collaborators m) 0 120 e"
  by (simp add: run_accepts_def)

lemma sample_clocks_at_start [simp]:
  "clocks_at_start (sample_collaborators m) start stop time_step fm rs e"
  by (cases fm) (simp_all add: clocks_at_start_def run_setup_def Let_def backtest_header_def)

lemma sample_datetimes [simp]: "valid_datetime 0" "valid_datetime 60" "valid_datetime 120"
  by (simp_all add: valid_datetime_def datetime_max_def)

lemma sample_passes_due [simp]: "passes_due 120 60 0 = 3"
  by (simp add: passes_due_def)

lemma sample_run_returns:
  "\<exists>e'. run (sample_collaborators m) 0 120 60 None True 2000 2001 (sample_engine m)
            = Some (None, e')"
proof -
  have "run (sample_collaborators m) 0 120 60 None True 2000 2001 (sample_engine m)
        = Some (None, run_finish (sample_collaborators m) 0 120 60 True 2000 2001
                  (loop_steps (sample_collaborators m) 60 (passes_due 120 60 0) 0
                     (run_setup (sample_collaborators m) 0 120 60 None 2000 (sample_engine m))))"
    by (rule run_returns) (simp_all add: datetime_max_def)
  then show ?thesis ..
qed

subsection \<open>Deliveries\<close>






lemma exec_bar_ticks_calls:
  assumes "length bs = length ks"
  shows "concat (map exec_bar (ticks_calls ts ks bs)) = []"
proof -
  have "concat (map exec_bar (ticks_calls ts ks bs)) = concat (map (\<lambda>k. []) ks)"
    by (rule concat_map_ticks_calls [OF assms]) (simp add: tick_calls_def o_def)
  then show ?thesis by (simp only: concat_map_Nil)
qed





lemma exec_ticks_append [simp]: "exec_ticks (xs @ ys) = exec_ticks xs @ exec_ticks ys"
  by (simp add: exec_ticks_def)

lemma exec_bars_append [simp]: "exec_bars (xs @ ys) = exec_bars xs @ exec_bars ys"
  by (simp add: exec_bars_def)

lemma data_ticks_append [simp]: "data_ticks (xs @ ys) = data_ticks xs @ data_ticks ys"
  by (simp add: data_ticks_def)

lemma data_bars_append [simp]: "data_bars (xs @ ys) = data_bars xs @ data_bars ys"
  by (simp add: data_bars_def)

lemma deliveries_Cons [simp]:
  "exec_ticks [] = []" "exec_ticks (c # cs) = exec_tick c @ exec_ticks cs"
  "exec_bars [] = []" "exec_bars (c # cs) = exec_bar c @ exec_bars cs"
  "data_ticks [] = []" "data_ticks (c # cs) = data_tick c @ data_ticks cs"
  "data_bars [] = []" "data_bars (c # cs) = data_bar c @ data_bars cs"
  by (simp_all add: exec_ticks_def exec_bars_def data_ticks_def data_bars_def)

lemma exec_tick_ticks_calls:
  assumes "length bs = length ks" and "\<forall>b\<in>set bs. fst b = m"
  shows "concat (map exec_tick (ticks_calls ts ks bs)) = (if m then ks else [])"
proof (cases m)
  case True
  have "concat (map exec_tick (ticks_calls ts ks bs)) = concat (map (\<lambda>k. [k]) ks)"
    using assms(2) True
    by (intro concat_map_ticks_calls [OF assms(1)]) (simp add: tick_calls_def o_def)
  with True show ?thesis by simp
next
  case False
  have "concat (map exec_tick (ticks_calls ts ks bs)) = concat (map (\<lambda>k. []) ks)"
    using assms(2) False
    by (intro concat_map_ticks_calls [OF assms(1)]) (simp add: tick_calls_def o_def)
  with False show ?thesis by (simp only: concat_map_Nil if_False)
qed

lemma data_tick_ticks_calls:
  assumes "length bs = length ks"
  shows "concat (map data_tick (ticks_calls ts ks bs)) = ks"
proof -
  have "concat (map data_tick (ticks_calls ts ks bs)) = concat (map (\<lambda>k. [k]) ks)"
    by (rule concat_map_ticks_calls [OF assms]) (simp add: tick_calls_def o_def)
  then show ?thesis by simp
qed

lemma data_bar_ticks_calls:
  assumes "length bs = length ks"
  shows "concat (map data_bar (ticks_calls ts ks bs)) = []"
proof -
  have "concat (map data_bar (ticks_calls ts ks bs)) = concat (map (\<lambda>k. []) ks)"
    by (rule concat_map_ticks_calls [OF assms]) (simp add: tick_calls_def o_def)
  then show ?thesis by (simp only: concat_map_Nil)
qed

lemma exec_bar_bars_calls: "concat (map exec_bar (bars_calls t bars)) = bars"
  by (induction bars) (auto simp: bars_calls_def)

lemma exec_tick_bars_calls: "concat (map exec_tick (bars_calls t bars)) = []"
  by (rule concat_map_bars_calls) simp_all

lemma data_tick_bars_calls: "concat (map data_tick (bars_calls t bars)) = []"
  by (rule concat_map_bars_calls) simp_all

lemma data_bar_bars_calls: "concat (map data_bar (bars_calls t bars)) = []"
  by (rule concat_map_bars_calls) simp_all

lemma deliveries_pass_calls:
  assumes "length bs = length ks" and "\<forall>b\<in>set bs. fst b = m"
  shows "exec_ticks (pass_calls m ts t bars ks bs c) = (if m then ks else [])"
    and "exec_bars (pass_calls m ts t bars ks bs c) = (if m then [] else bars)"
    and "data_ticks (pass_calls m ts t bars ks bs c) = ks"
    and "data_bars (pass_calls m ts t bars ks bs c) = [c]"
proof -
  show "exec_ticks (pass_calls m ts t bars ks bs c) = (if m then ks else [])"
    by (cases m)
       (simp_all add: exec_ticks_def pass_calls_def exec_tick_ticks_calls [OF assms]
          exec_tick_bars_calls)
  show "exec_bars (pass_calls m ts t bars ks bs c) = (if m then [] else bars)"
    by (cases m)
       (simp_all add: exec_bars_def pass_calls_def exec_bar_ticks_calls [OF assms(1)]
          exec_bar_bars_calls)
  show "data_ticks (pass_calls m ts t bars ks bs c) = ks"
    by (cases m)
       (simp_all add: data_ticks_def pass_calls_def data_tick_ticks_calls [OF assms(1)]
          data_tick_bars_calls)
  show "data_bars (pass_calls m ts t bars ks bs c) = [c]"
    by (cases m)
       (simp_all add: data_bars_def pass_calls_def data_bar_ticks_calls [OF assms(1)]
          data_bar_bars_calls)
qed

lemma deliveries_loop_body:
  assumes "mode_fixed ops"
  shows "exec_ticks (new_calls e (loop_body ops t e))
         = (if use_ticks ops (world e) then iterate_ticks ops t (world (bars_phase ops t e)) else [])"
    and "exec_bars (new_calls e (loop_body ops t e))
         = (if use_ticks ops (world e) then [] else get_next_minute_bars ops t (world e))"
    and "data_ticks (new_calls e (loop_body ops t e))
         = iterate_ticks ops t (world (bars_phase ops t e))"
    and "data_bars (new_calls e (loop_body ops t e))
         = [iterate_bars ops t (world (set_time ops t (ticks_phase ops t (bars_phase ops t e))))]"
proof -
  from loop_body_calls [of ops t e] obtain bs where bs:
    "length bs = length (iterate_ticks ops t (world (bars_phase ops t e))) \<and>
       (mode_fixed ops \<longrightarrow> (\<forall>b\<in>set bs. fst b = use_ticks ops (world e))) \<and>
       calls (loop_body ops t e)
       = calls e @ pass_calls (use_ticks ops (world e)) (tick_timestamp ops) t
           (get_next_minute_bars ops t (world e))
           (iterate_ticks ops t (world (bars_phase ops t e))) bs
           (iterate_bars ops t
              (world (set_time ops t (ticks_phase ops t (bars_phase ops t e)))))" ..
  then have len: "length bs = length (iterate_ticks ops t (world (bars_phase ops t e)))"
    and flags: "\<forall>b\<in>set bs. fst b = use_ticks ops (world e)"
    and new: "new_calls e (loop_body ops t e)
       = pass_calls (use_ticks ops (world e)) (tick_timestamp ops) t
           (get_next_minute_bars ops t (world e))
           (iterate_ticks ops t (world (bars_phase ops t e))) bs
           (iterate_bars ops t
              (world (set_time ops t (ticks_phase ops t (bars_phase ops t e)))))"
    using assms by (simp_all add: new_calls_append)
  show "exec_ticks (new_calls e (loop_body ops t e))
         = (if use_ticks ops (world e) then iterate_ticks ops t (world (bars_phase ops t e)) else [])"
    unfolding new by (rule deliveries_pass_calls(1) [OF len flags])
  show "exec_bars (new_calls e (loop_body ops t e))
         = (if use_ticks ops (world e) then [] else get_next_minute_bars ops t (world e))"
    unfolding new by (rule deliveries_pass_calls(2) [OF len flags])
  show "data_ticks (new_calls e (loop_body ops t e))
         = iterate_ticks ops t (world (bars_phase ops t e))"
    unfolding new by (rule deliveries_pass_calls(3) [OF len flags])
  show "data_bars (new_calls e (loop_body ops t e))
         = [iterate_bars ops t (world (set_time ops t (ticks_phase ops t (bars_phase ops t e))))]"
    unfolding new by (rule deliveries_pass_calls(4) [OF len flags])
qed

lemma loop_steps_mode:
  "mode_fixed ops \<Longrightarrow>
   use_ticks ops (world (loop_steps ops time_step n t e)) = use_ticks ops (world e)"
  by (induction n arbitrary: t e) (simp_all add: loop_body_mode)

lemma deliveries_loop_steps_ticks:
  assumes "mode_fixed ops" and "use_ticks ops (world e)"
  shows "exec_bars (calls (loop_steps ops time_step n t e)) = exec_bars (calls e) \<and>
         (\<exists>xs. exec_ticks (calls (loop_steps ops time_step n t e)) = exec_ticks (calls e) @ xs \<and>
               data_ticks (calls (loop_steps ops time_step n t e)) = data_ticks (calls e) @ xs)"
  using assms(2)
proof (induction n arbitrary: t e)
  case 0
  show ?case by simp
next
  case (Suc n)
  let ?e1 = "loop_body ops t e"
  let ?ks = "iterate_ticks ops t (world (bars_phase ops t e))"
  have m: "use_ticks ops (world ?e1)" using Suc.prems assms(1) by (simp add: loop_body_mode)
  have b: "exec_bars (calls ?e1) = exec_bars (calls e)"
    and x: "exec_ticks (calls ?e1) = exec_ticks (calls e) @ ?ks"
    and d: "data_ticks (calls ?e1) = data_ticks (calls e) @ ?ks"
    using deliveries_loop_body [OF assms(1), of e t] Suc.prems
    by (subst loop_body_calls_split, simp)+
  from Suc.IH [OF m, of "t + time_step"] obtain xs where
    "exec_bars (calls (loop_steps ops time_step n (t + time_step) ?e1)) = exec_bars (calls ?e1)"
    "exec_ticks (calls (loop_steps ops time_step n (t + time_step) ?e1)) = exec_ticks (calls ?e1) @ xs"
    "data_ticks (calls (loop_steps ops time_step n (t + time_step) ?e1)) = data_ticks (calls ?e1) @ xs"
    by auto
  with b x d show ?case by (intro conjI exI [of _ "?ks @ xs"]) simp_all
qed

lemma deliveries_loop_steps_bars:
  assumes "mode_fixed ops" and "\<not> use_ticks ops (world e)"
  shows "exec_ticks (calls (loop_steps ops time_step n t e)) = exec_ticks (calls e)"
  using assms(2)
proof (induction n arbitrary: t e)
  case 0
  show ?case by simp
next
  case (Suc n)
  let ?e1 = "loop_body ops t e"
  have m: "\<not> use_ticks ops (world ?e1)" using Suc.prems assms(1) by (simp add: loop_body_mode)
  have x: "exec_ticks (calls ?e1) = exec_ticks (calls e)"
    using deliveries_loop_body(1) [OF assms(1), of e t] Suc.prems
    by (subst loop_body_calls_split) simp
  from Suc.IH [OF m, of "t + time_step"] x show ?case by simp
qed

lemma deliveries_setup_calls [simp]:
  "exec_ticks (setup_calls fm start time_step ss n) = []"
  "exec_bars (setup_calls fm start time_step ss n) = []"
  "data_ticks (setup_calls fm start time_step ss n) = []"
  by (cases fm;
      simp add: exec_ticks_def exec_bars_def data_ticks_def setup_calls_def o_def split_def
        map_concat)+

lemma run_setup_mode:
  assumes "mode_fixed ops"
  shows "use_ticks ops (world (run_setup ops start stop time_step fm rs e)) = use_ticks ops (world e)"
proof -
  have "use_ticks ops (world (change_strategy_clocks_and_loggers ops ss e')) = use_ticks ops (world e')"
    for ss and e' :: "('a, 'b, 'c, 'd, 'e, 'f) engine"
    by (induction ss arbitrary: e') (simp_all add: Let_def mode_fixedD [OF assms])
  then show ?thesis
    by (cases fm) (simp_all add: run_setup_def Let_def backtest_header_def mode_fixedD [OF assms])
qed

text \<open>The calls of a call of \<^verbatim>\<open>run\<close> that returns, however it ends.\<close>

lemma run_ended_new_calls:
  assumes "run ops start stop time_step fm pls rs wn e = Some (x, e')"
  shows "new_calls e e' = [] \<or>
         (\<exists>k tl. (tl = [] \<or> tl = [TraderStop]) \<and>
            new_calls e e'
            = new_calls e (run_setup ops start stop time_step fm rs e)
              @ new_calls (run_setup ops start stop time_step fm rs e)
                  (loop_steps ops time_step k start (run_setup ops start stop time_step fm rs e))
              @ tl)"
proof -
  let ?e1 = "run_setup ops start stop time_step fm rs e"
  have c1: "calls ?e1 = calls e @ new_calls e ?e1"
    by (simp add: run_setup_calls run_setup_new_calls)
  have shape: "\<exists>k tl. (tl = [] \<or> tl = [TraderStop]) \<and>
            new_calls e e' = new_calls e ?e1 @ new_calls ?e1 (loop_steps ops time_step k start ?e1) @ tl"
    if c: "calls e' = calls (loop_steps ops time_step k start ?e1) @ tl"
      and tl: "tl = [] \<or> tl = [TraderStop]" for k tl
  proof -
    have "calls e' = calls e @ (new_calls e ?e1
            @ new_calls ?e1 (loop_steps ops time_step k start ?e1) @ tl)"
      unfolding c by (subst loop_steps_calls_split) (simp add: c1 [symmetric])
    then have "new_calls e e' = new_calls e ?e1
            @ new_calls ?e1 (loop_steps ops time_step k start ?e1) @ tl"
      by (rule new_calls_append)
    with tl show ?thesis by blast
  qed
  show ?thesis
  proof (cases "run_accepts ops start stop e")
    case False
    with assms have "e' = e"
      by (auto simp: run_def run_body_def run_accepts_def Let_def split: if_splits)
    then show ?thesis by (simp add: new_calls_def)
  next
    case acc: True
    show ?thesis
    proof (cases "clocks_at_start ops start stop time_step fm rs e")
      case False
      with assms acc have "e' = ?e1"
        by (auto simp: run_def run_body_def run_accepts_def clocks_at_start_def Let_def
            split: if_splits)
      then have "calls e' = calls (loop_steps ops time_step 0 start ?e1) @ []" by simp
      from shape [OF this] show ?thesis by simp
    next
      case at: True
      from assms obtain r where r: "run_loop ops stop time_step start ?e1 = Some r"
        by (cases "run_loop ops stop time_step start ?e1")
           (simp_all add: run_def run_body_entered [OF acc at])
      from run_loop_ended [OF r] obtain k where k: "loop_ended ops stop time_step start ?e1 k r" ..
      show ?thesis
      proof (cases r)
        case (Inr e2)
        with k have "e2 = loop_steps ops time_step k start ?e1" by (simp add: loop_ended_def)
        with assms r Inr have "e' = run_finish ops start stop time_step pls rs wn
                                  (loop_steps ops time_step k start ?e1)"
          by (simp add: run_of_loop(3) [OF acc at])
        then have "calls e' = calls (loop_steps ops time_step k start ?e1) @ [TraderStop]"
          by simp
        from shape [OF this] show ?thesis by simp
      next
        case (Inl y)
        with k have y: "y = (OverflowError, loop_pass ops (start + int k * time_step)
                                (loop_steps ops time_step k start ?e1))"
          by (auto simp: loop_ended_def)
        with assms r Inl have "e' = loop_pass ops (start + int k * time_step)
                                (loop_steps ops time_step k start ?e1)"
          by (simp add: run_of_loop(2) [OF acc at])
        then have "calls e' = calls (loop_steps ops time_step (Suc k) start ?e1) @ []"
          by (simp only: loop_steps_snoc loop_pass_calls append_Nil2)
        from shape [OF this] show ?thesis by simp
      qed
    qed
  qed
qed

lemma sample_mode_fixed [simp]: "mode_fixed (sample_collaborators m)"
  by (simp add: mode_fixed_def)



lemma clock_assignments_Cons [simp]:
  "clock_assignments [] = []"
  "clock_assignments (c # cs) = clock_set c @ clock_assignments cs"
  by (simp_all add: clock_assignments_def)

lemma clock_assignments_strategy_calls:
  "clock_assignments (concat (map2 (\<lambda>s n. [StrategyChangeClock s (TestClockRef n),
      StrategyChangeLogger s]) ss ns)) = []"
  by (induction ss ns rule: list_induct2') simp_all

lemma clock_assignments_setup_calls:
  "clock_assignments (setup_calls fm start time_step ss n) = [start]"
  by (cases fm) (simp_all add: setup_calls_def clock_assignments_strategy_calls)

lemma clock_assignments_loop_steps:
  "clock_assignments (calls (loop_steps ops time_step n t e))
   = clock_assignments (calls e)
     @ concat (map (pass_clock (tick_timestamp ops)) (ticks_returned ops time_step n t e))"
  by (induction n arbitrary: t e) (simp_all add: clock_assignments_loop_body pass_clock_def)

lemma clock_assignments_new_loop_steps:
  "clock_assignments (new_calls e (loop_steps ops time_step n t e))
   = concat (map (pass_clock (tick_timestamp ops)) (ticks_returned ops time_step n t e))"
proof -
  have "clock_assignments (calls (loop_steps ops time_step n t e))
        = clock_assignments (calls e)
          @ clock_assignments (new_calls e (loop_steps ops time_step n t e))"
    by (subst loop_steps_calls_split) simp
  then show ?thesis by (simp add: clock_assignments_loop_steps)
qed

lemma ticks_returned_boundaries:
  "map fst (ticks_returned ops time_step n t e) = map (\<lambda>i. t + int i * time_step) [0..<n]"
proof (induction n arbitrary: t e)
  case 0
  show ?case by simp
next
  case (Suc n)
  have "map (\<lambda>i. t + int i * time_step) [0..<Suc n]
        = t # map (\<lambda>i. (t + time_step) + int i * time_step) [0..<n]"
    by (simp add: upt_conv_Cons map_Suc_upt [symmetric] algebra_simps del: upt_Suc)
  then show ?case using Suc [of "t + time_step" "loop_body ops t e"] by (simp del: upt_Suc)
qed

lemma run_clock_assignments:
  assumes "run ops start stop time_step fm pls rs wn e = Some (None, e')"
  shows "clock_assignments (new_calls e e')
         = start # concat (map (pass_clock (tick_timestamp ops))
                             (run_ticks ops start stop time_step fm rs e))"
  unfolding run_completed_new_calls [OF assms] run_ticks_def
  by (simp add: run_setup_new_calls clock_assignments_setup_calls
        clock_assignments_new_loop_steps)

lemma boundaries_increase:
  assumes "0 < time_step"
  shows "sorted_wrt (<) (map (\<lambda>i. start + int i * time_step) [0..<n])"
  using assms by (simp add: sorted_wrt_iff_nth_less)

lemma sorted_middle:
  fixes y :: int
  shows "sorted (xs @ y # ys) = (sorted (xs @ [y]) \<and> sorted (y # ys))"
proof -
  have "x \<le> z" if "\<forall>x\<in>set xs. x \<le> y" "\<forall>z\<in>set ys. y \<le> z" "x \<in> set xs" "z \<in> set ys"
    for x z
  proof -
    from that have "x \<le> y" "y \<le> z" by simp_all
    then show ?thesis by (rule order_trans)
  qed
  then show ?thesis by (auto simp: sorted_append)
qed

lemma sorted_pass_clock:
  assumes "prev \<le> t"
  shows "sorted (prev # pass_clock ts (t, ks))
         = (sorted (map ts ks) \<and> list_all (\<lambda>k. prev \<le> ts k \<and> ts k \<le> t) ks)"
  using assms by (auto simp: pass_clock_def sorted_append list_all_iff)

lemma sorted_pass_clocks:
  assumes "0 \<le> time_step"
  shows "prev = max start (t - time_step) \<Longrightarrow> prev \<le> t \<Longrightarrow>
         sorted (prev # concat (map (pass_clock ts) (ticks_returned ops time_step n t e)))
         = list_all (ticks_due_in_order ts start time_step) (ticks_returned ops time_step n t e)"
proof (induction n arbitrary: prev t e)
  case 0
  show ?case by simp
next
  case (Suc n)
  let ?ks = "iterate_ticks ops t (world (bars_phase ops t e))"
  let ?rest = "ticks_returned ops time_step n (t + time_step) (loop_body ops t e)"
  let ?R = "concat (map (pass_clock ts) ?rest)"
  have st: "start \<le> t" using Suc.prems by simp
  have next_prev: "t = max start (t + time_step - time_step)" using st by simp
  have "t \<le> t + time_step" using assms by simp
  from Suc.IH [OF next_prev this]
  have IH: "sorted (t # ?R) = list_all (ticks_due_in_order ts start time_step) ?rest" .
  have "sorted (prev # concat (map (pass_clock ts) (ticks_returned ops time_step (Suc n) t e)))
        = sorted ((prev # map ts ?ks) @ t # ?R)"
    by (simp add: pass_clock_def)
  also have "\<dots> = (sorted ((prev # map ts ?ks) @ [t]) \<and> sorted (t # ?R))"
    by (rule sorted_middle)
  finally have l: "sorted (prev # concat (map (pass_clock ts)
                      (ticks_returned ops time_step (Suc n) t e)))
        = (sorted (prev # pass_clock ts (t, ?ks)) \<and> sorted (t # ?R))"
    by (simp add: pass_clock_def)
  have "sorted (prev # pass_clock ts (t, ?ks))
        = (sorted (map ts ?ks) \<and> list_all (\<lambda>k. prev \<le> ts k \<and> ts k \<le> t) ?ks)"
    using Suc.prems(2) by (rule sorted_pass_clock)
  also have "\<dots> = ticks_due_in_order ts start time_step (t, ?ks)"
    using Suc.prems(1) by (auto simp: ticks_due_in_order_def list_all_iff)
  finally have p: "sorted (prev # pass_clock ts (t, ?ks))
        = ticks_due_in_order ts start time_step (t, ?ks)" .
  have r: "list_all (ticks_due_in_order ts start time_step)
             (ticks_returned ops time_step (Suc n) t e)
           = (ticks_due_in_order ts start time_step (t, ?ks) \<and>
              list_all (ticks_due_in_order ts start time_step) ?rest)"
    by simp
  show ?case unfolding l p r IH ..
qed

lemma sample_run_ticks:
  "run_ticks (sample_collaborators m) 0 120 60 None rs e = [(0, [0]), (60, [60]), (120, [120])]"
  by (simp add: run_ticks_def numeral_3_eq_3)

lemma engine_init_calls:
  "calls (engine_init ops insts strats fm cfg w1 w2 w3 w0)
   = ClockSetTime w2 # MakeAccount # MakePortfolio # MakeDataClient insts
     # MakeExecClient insts fm
     # concat (map2 (\<lambda>s n. [StrategyChangeClock s (TestClockRef n), StrategyChangeLogger s])
                strats [1 ..< 1 + length strats])
     @ [MakeTrader strats]"
  by (simp add: engine_init_def Let_def change_strategy_clocks_and_loggers_calls)

lemma early_tick_collaborators_simps [simp]:
  "use_ticks early_tick_collaborators w = True"
  "data_minute_index early_tick_collaborators w = [0, 60, 120]"
  "strategies early_tick_collaborators w = [0, 1]"
  "data_time_now early_tick_collaborators w = snd w"
  "exec_time_now early_tick_collaborators w = snd w"
  "iterate_ticks early_tick_collaborators t w = [t - 30]"
  "iterate_bars early_tick_collaborators t w = t"
  "tick_timestamp early_tick_collaborators k = k"
  "perform early_tick_collaborators c w = (Suc (fst w), sample_clock c (snd w))"
  by (simp_all add: early_tick_collaborators_def sample_collaborators_def)

lemma early_tick_run:
  "run early_tick_collaborators 60 120 60 None True 2000 2001 (sample_engine True)
   = Some (None, run_finish early_tick_collaborators 60 120 60 True 2000 2001
             (loop_steps early_tick_collaborators 60 (passes_due 120 60 60) 60
                (run_setup early_tick_collaborators 60 120 60 None 2000 (sample_engine True))))"
  by (rule run_returns)
     (simp_all add: run_accepts_def clocks_at_start_def run_setup_def Let_def
        backtest_header_def passes_due_def datetime_max_def)

subsection \<open>Which clock each component holds\<close>

lemma change_strategy_clocks_other:
  "c \<notin> StrategyC ` set ss \<Longrightarrow>
   clock_of (change_strategy_clocks_and_loggers ops ss e) c = clock_of e c"
  by (induction ss arbitrary: e) (auto simp: Let_def)

lemma change_strategy_clocks_nth:
  "distinct ss \<Longrightarrow> i < length ss \<Longrightarrow>
   clock_of (change_strategy_clocks_and_loggers ops ss e) (StrategyC (ss ! i))
   = Some (TestClockRef (clocks_made e + i))"
proof (induction ss arbitrary: e i)
  case Nil
  then show ?case by simp
next
  case (Cons s ss)
  show ?case
  proof (cases i)
    case 0
    have "StrategyC s \<notin> StrategyC ` set ss" using Cons.prems(1) by auto
    then show ?thesis using 0 by (simp add: Let_def change_strategy_clocks_other)
  next
    case (Suc j)
    then show ?thesis using Cons.prems Cons.IH [of j] by (simp add: Let_def)
  qed
qed

lemma engine_init_clock_of:
  "c \<notin> StrategyC ` set strats \<Longrightarrow>
   clock_of (engine_init ops insts strats fm cfg w1 w2 w3 w0) c
   = (if c \<in> {LoggerC, TestLoggerC, PortfolioC, DataClientC, ExecClientC, TraderC}
      then Some (TestClockRef 0) else None)"
  by (cases c) (simp_all add: engine_init_def Let_def change_strategy_clocks_other)

lemma engine_init_strategy_clock:
  "distinct strats \<Longrightarrow> i < length strats \<Longrightarrow>
   clock_of (engine_init ops insts strats fm cfg w1 w2 w3 w0) (StrategyC (strats ! i))
   = Some (TestClockRef (Suc i))"
  by (simp add: engine_init_def Let_def change_strategy_clocks_nth)

lemma run_setup_clock_other:
  "c \<notin> StrategyC ` set (strategies_at_setup ops start fm e) \<Longrightarrow>
   clock_of (run_setup ops start stop time_step fm rs e) c = clock_of e c"
  by (cases fm)
     (simp_all add: run_setup_def Let_def backtest_header_def strategies_at_setup_def
        change_strategy_clocks_other)

lemma run_setup_strategy_clock:
  "distinct (strategies_at_setup ops start fm e) \<Longrightarrow>
   i < length (strategies_at_setup ops start fm e) \<Longrightarrow>
   clock_of (run_setup ops start stop time_step fm rs e)
     (StrategyC (strategies_at_setup ops start fm e ! i))
   = Some (TestClockRef (clocks_made e + i))"
  by (cases fm)
     (simp_all add: run_setup_def Let_def backtest_header_def strategies_at_setup_def
        change_strategy_clocks_nth)

lemma sample_strategies_at_setup [simp]:
  "strategies_at_setup (sample_collaborators m) start fm e = [0, 1]"
  by (simp add: strategies_at_setup_def)

subsection \<open>The portfolio\<close>

lemma scenario_A: "apply_fill scenario_portfolio scenario_buy = Inr scenario_after_buy"
  by (simp add: apply_fill_def scenario_portfolio_def scenario_buy_def scenario_after_buy_def
        position_after_def realized_by_def signed_quantity_def Let_def)

lemma scenario_B: "apply_fill scenario_after_buy scenario_sell = Inr scenario_after_sell"
  by (simp add: apply_fill_def scenario_sell_def scenario_after_buy_def scenario_after_sell_def
        position_after_def realized_by_def signed_quantity_def Let_def fun_eq_iff)

lemma apply_fill_records:
  "apply_fill p f = Inr p1 \<Longrightarrow> fill_id f \<in> set (applied_fills p1)"
  by (auto simp: apply_fill_def Let_def split: if_splits)

lemma apply_fill_keeps:
  "set (applied_fills p)
   \<subseteq> set (applied_fills (case apply_fill p f of Inl (err, p') \<Rightarrow> p' | Inr p' \<Rightarrow> p'))"
  by (auto simp: apply_fill_def Let_def)

lemma apply_fills_keep: "set (applied_fills p) \<subseteq> set (applied_fills (apply_fills p fs))"
proof (induction fs arbitrary: p)
  case Nil
  show ?case by simp
next
  case (Cons f fs)
  from apply_fill_keeps [of p f]
    Cons [of "case apply_fill p f of Inl (err, p') \<Rightarrow> p' | Inr p' \<Rightarrow> p'"]
  have "set (applied_fills p)
        \<subseteq> set (applied_fills (apply_fills
            (case apply_fill p f of Inl (err, p') \<Rightarrow> p' | Inr p' \<Rightarrow> p') fs))"
    by (rule subset_trans)
  then show ?case by (simp only: apply_fills.simps)
qed

lemma apply_fills_snoc:
  "apply_fills p (fs @ [f])
   = (case apply_fill (apply_fills p fs) f of Inl (err, p') \<Rightarrow> p' | Inr p' \<Rightarrow> p')"
  by (induction fs arbitrary: p) simp_all

section \<open>The properties\<close>

text \<open>
  Claim C2. A call \<^verbatim>\<open>run(start, stop)\<close> with \<open>start \<ge> stop\<close>, or with \<open>start\<close> before the
  first timestamp of the data client's minute index, or with \<open>stop\<close> after its last
  timestamp, leaves the engine exactly as it was (iteration counter, world with the test
  clock, data client, execution client, portfolio and trader, calls and logs), but it
  does not fail: the \<^verbatim>\<open>ValueError\<close> of \<^verbatim>\<open>Precondition.true\<close> is raised inside a
  \<^verbatim>\<open>cpdef void\<close> method with no \<^verbatim>\<open>except\<close> clause, where it is printed and dropped, and the
  call returns to its caller like a call that ran the backtest. The docstring of \<^verbatim>\<open>run\<close>
  says \<^verbatim>\<open>:raises: ValueError\<close> for each of the three checks.
\<close>

theorem run_invalid_range:
  assumes "stop \<le> start \<or>
           (data_minute_index ops (world e) \<noteq> [] \<and>
            (start < data_minute_index ops (world e) ! 0 \<or>
             data_minute_index ops (world e) ! (length (data_minute_index ops (world e)) - 1) < stop))"
  shows "\<exists>text. run ops start stop time_step fill_model print_log_store run_started wall_now e
           = Some (Some (ValueError text), e)"
  using assms by (auto simp: run_def run_body_def Let_def)

theorem run_invalid_range_witness:
  "((10::int) \<le> 10 \<or>
     (data_minute_index (sample_collaborators True) (world (sample_engine True)) \<noteq> [] \<and>
      ((10::int) < data_minute_index (sample_collaborators True) (world (sample_engine True)) ! 0 \<or>
       data_minute_index (sample_collaborators True) (world (sample_engine True))
         ! (length (data_minute_index (sample_collaborators True) (world (sample_engine True))) - 1) < 10)))
   \<and> run (sample_collaborators True) 10 10 60 None True 2000 2001 (sample_engine True)
       = Some (Some (ValueError ''start < stop''), sample_engine True)"
  using run_invalid_range [of 10 10 "sample_collaborators True" "sample_engine True" 60 None
      True 2000 2001]
  by (simp add: run_def run_body_def)



text \<open>
  Claim C4, as amended. In a call of \<^verbatim>\<open>run\<close> whose statements all ran, the engine
  assigns to the test clock \<open>start\<close> at the setup and then, pass by pass, the timestamp of
  each tick the data client returned for the pass, in the order returned, followed by the
  step boundary of the pass. The boundaries are \<open>start\<close>, \<open>start + time_step\<close>, ... and
  strictly increase. The ticks are assigned as they come: the assignments of the run as
  a whole never decrease exactly when the ticks of every pass come in timestamp order,
  none later than the boundary of the pass and none earlier than the previous boundary or
  than \<open>start\<close>.
\<close>

theorem clock_monotonic_within_run:
  assumes "run ops start stop time_step fill_model print_log_store run_started wall_now e
           = Some (None, e')"
  shows "clock_assignments (new_calls e e')
         = start # concat (map (pass_clock (tick_timestamp ops))
                             (run_ticks ops start stop time_step fill_model run_started e)) \<and>
         map fst (run_ticks ops start stop time_step fill_model run_started e)
         = map (\<lambda>i. start + int i * time_step) [0..<nat ((stop - start) div time_step + 1)] \<and>
         sorted_wrt (<) (map fst (run_ticks ops start stop time_step fill_model run_started e)) \<and>
         sorted (clock_assignments (new_calls e e'))
         = list_all (ticks_due_in_order (tick_timestamp ops) start time_step)
             (run_ticks ops start stop time_step fill_model run_started e)"
proof -
  from run_completed [OF assms] have acc: "run_accepts ops start stop e"
    and pos: "0 < time_step" by simp_all
  have lt: "start < stop" using acc by (simp add: run_accepts_def Let_def)
  have n: "passes_due stop time_step start = nat ((stop - start) div time_step + 1)"
    using lt pos by (rule passes_due_start)
  have b: "map fst (run_ticks ops start stop time_step fill_model run_started e)
         = map (\<lambda>i. start + int i * time_step) [0..<nat ((stop - start) div time_step + 1)]"
    by (simp add: run_ticks_def ticks_returned_boundaries n)
  have s: "sorted (start # concat (map (pass_clock (tick_timestamp ops))
                             (run_ticks ops start stop time_step fill_model run_started e)))
         = list_all (ticks_due_in_order (tick_timestamp ops) start time_step)
             (run_ticks ops start stop time_step fill_model run_started e)"
    unfolding run_ticks_def using pos by (intro sorted_pass_clocks) simp_all
  show ?thesis
    unfolding run_clock_assignments [OF assms] b s
    using boundaries_increase [OF pos] by simp
qed

theorem clock_monotonic_within_run_witness:
  "\<exists>e'. run (sample_collaborators True) 0 120 60 None True 2000 2001 (sample_engine True)
           = Some (None, e') \<and>
         clock_assignments (new_calls (sample_engine True) e') = [0, 0, 0, 60, 60, 120, 120] \<and>
         sorted (clock_assignments (new_calls (sample_engine True) e')) \<and>
         list_all (ticks_due_in_order (tick_timestamp (sample_collaborators True)) 0 60)
           [(0, [0]), (60, [60]), (120, [120])]"
proof -
  from sample_run_returns [of True] obtain e' where
    r: "run (sample_collaborators True) 0 120 60 None True 2000 2001 (sample_engine True)
          = Some (None, e')" ..
  have d: "list_all (ticks_due_in_order (tick_timestamp (sample_collaborators True)) 0 60)
             [(0, [0]), (60, [60]), (120, [120])]"
    by (simp add: ticks_due_in_order_def)
  from clock_monotonic_within_run [OF r] r d show ?thesis
    by (auto simp: sample_run_ticks pass_clock_def)
qed

text \<open>
  Claim C4 as stated fails, at the setup of a run and inside the main loop. The
  constructor assigns the wall-clock time to the test clock, and the setup of a run over
  historical data then assigns the earlier \<open>start\<close>: below the engine is built at
  wall-clock time 1000 and run from 0, and the first two assignments of its life are
  1000 and 0. In the loop the clock is set to what each tick carries: with a data client
  whose ticks are stamped 30 earlier than the boundary they are returned at, the run
  from 60 assigns 60 at the setup, then 30.
\<close>

theorem clock_moves_back:
  "clock_assignments (calls (sample_engine True)) = [1000] \<and>
   map_option (\<lambda>r. (fst r, take 2 (clock_assignments (calls (snd r)))))
     (run (sample_collaborators True) 0 120 60 None True 2000 2001 (sample_engine True))
   = Some (None, [1000, 0]) \<and>
   map_option (\<lambda>r. (fst r, clock_assignments (new_calls (sample_engine True) (snd r))))
     (run early_tick_collaborators 60 120 60 None True 2000 2001 (sample_engine True))
   = Some (None, [60, 30, 60, 90, 120])"
proof -
  let ?e = "sample_engine True"
  have a: "clock_assignments (calls ?e) = [1000]"
    by (simp add: sample_engine_def engine_init_calls clock_assignments_strategy_calls)
  from sample_run_returns [of True] obtain e' where
    r: "run (sample_collaborators True) 0 120 60 None True 2000 2001 ?e = Some (None, e')" ..
  have "calls e' = calls ?e @ new_calls ?e e'" by (rule run_completed_calls [OF r])
  then have "clock_assignments (calls e')
             = [1000] @ clock_assignments (new_calls ?e e')"
    using a by (metis clock_assignments_append)
  then have b: "take 2 (clock_assignments (calls e')) = [1000, 0]"
    by (simp add: run_clock_assignments [OF r])
  have "run_ticks early_tick_collaborators 60 120 60 None 2000 ?e = [(60, [30]), (120, [90])]"
    by (simp add: run_ticks_def passes_due_def numeral_2_eq_2)
  then have c: "clock_assignments (new_calls ?e
        (run_finish early_tick_collaborators 60 120 60 True 2000 2001
           (loop_steps early_tick_collaborators 60 (passes_due 120 60 60) 60
              (run_setup early_tick_collaborators 60 120 60 None 2000 ?e))))
      = [60, 30, 60, 90, 120]"
    by (simp add: run_clock_assignments [OF early_tick_run] pass_clock_def)
  show ?thesis using a b c by (simp add: r early_tick_run)
qed

text \<open>
  Claim C6. The data client's mode (\<^verbatim>\<open>use_ticks\<close>, fixed when it was built: no call
  changes it) decides what the execution client is given. In a pass of the main loop in
  tick mode it is given exactly the ticks \<^verbatim>\<open>iterate_ticks(time)\<close> returned, in their
  order, and no bars; in bar mode exactly the bars \<^verbatim>\<open>get_next_minute_bars(time)\<close>
  returned and no tick. In both modes the data client (which passes them to the
  strategies) is given every tick and the bars of \<^verbatim>\<open>iterate_bars(time)\<close>, and the mode
  after the pass is the mode before it. Over a whole call of \<^verbatim>\<open>run\<close> that returns,
  whether all its statements ran or an exception ended it: in tick mode no bars reach
  the execution client and it is given the same ticks as the data client; in bar mode no
  tick reaches it. The header of the run's log names the mode.
\<close>

theorem execution_resolution_respected:
  assumes "mode_fixed ops"
  shows "exec_ticks (new_calls e (loop_body ops time e))
           = (if use_ticks ops (world e)
              then iterate_ticks ops time (world (bars_phase ops time e)) else []) \<and>
         exec_bars (new_calls e (loop_body ops time e))
           = (if use_ticks ops (world e) then [] else get_next_minute_bars ops time (world e)) \<and>
         data_ticks (new_calls e (loop_body ops time e))
           = iterate_ticks ops time (world (bars_phase ops time e)) \<and>
         data_bars (new_calls e (loop_body ops time e))
           = [iterate_bars ops time
                (world (set_time ops time (ticks_phase ops time (bars_phase ops time e))))] \<and>
         use_ticks ops (world (loop_body ops time e)) = use_ticks ops (world e) \<and>
         (\<forall>ignored e'.
            run ops start stop time_step fill_model print_log_store run_started wall_now e
              = Some (ignored, e') \<longrightarrow>
            (if use_ticks ops (world e)
             then exec_bars (new_calls e e') = [] \<and>
                  exec_ticks (new_calls e e') = data_ticks (new_calls e e')
             else exec_ticks (new_calls e e') = [])) \<and>
         logger (backtest_header ops run_started start stop time_step e)
           = logger e @ [BacktestHeader run_started start stop time_step
                           (if use_ticks ops (world e) then ''TICKS'' else ''1-MINUTE BARS'')]"
proof -
  have whole: "if use_ticks ops (world e)
        then exec_bars (new_calls e e') = [] \<and>
             exec_ticks (new_calls e e') = data_ticks (new_calls e e')
        else exec_ticks (new_calls e e') = []"
    if r: "run ops start stop time_step fill_model print_log_store run_started wall_now e
           = Some (x, e')" for x e'
  proof -
    let ?e1 = "run_setup ops start stop time_step fill_model run_started e"
    from run_ended_new_calls [OF r] consider "new_calls e e' = []"
      | k tl where "tl = [] \<or> tl = [TraderStop]"
          "new_calls e e' = new_calls e ?e1
             @ new_calls ?e1 (loop_steps ops time_step k start ?e1) @ tl"
      by blast
    then show ?thesis
    proof cases
      case 1
      then show ?thesis by simp
    next
      case 2
      let ?e2 = "loop_steps ops time_step k start ?e1"
      have tl: "exec_ticks tl = []" "exec_bars tl = []" "data_ticks tl = []"
        using 2(1) by auto
      have c2: "calls ?e2 = calls ?e1 @ new_calls ?e1 ?e2" by (rule loop_steps_calls_split)
      have s: "exec_ticks (new_calls e ?e1) = []" "exec_bars (new_calls e ?e1) = []"
        "data_ticks (new_calls e ?e1) = []"
        by (simp_all add: run_setup_new_calls)
      have m: "use_ticks ops (world ?e1) = use_ticks ops (world e)"
        by (rule run_setup_mode [OF assms])
      have eb: "exec_bars (calls ?e2) = exec_bars (calls ?e1) @ exec_bars (new_calls ?e1 ?e2)"
        and et: "exec_ticks (calls ?e2) = exec_ticks (calls ?e1) @ exec_ticks (new_calls ?e1 ?e2)"
        and dt: "data_ticks (calls ?e2) = data_ticks (calls ?e1) @ data_ticks (new_calls ?e1 ?e2)"
        by (subst c2, simp)+
      show ?thesis
      proof (cases "use_ticks ops (world e)")
        case True
        with m have m1: "use_ticks ops (world ?e1)" by simp
        note l = deliveries_loop_steps_ticks [OF assms m1, of time_step k start]
        from l have a: "exec_bars (calls ?e2) = exec_bars (calls ?e1)" by (rule conjunct1)
        from l [THEN conjunct2] obtain xs where
          x: "exec_ticks (calls ?e2) = exec_ticks (calls ?e1) @ xs \<and>
              data_ticks (calls ?e2) = data_ticks (calls ?e1) @ xs" ..
        from a eb have "exec_bars (new_calls ?e1 ?e2) = []" by simp
        moreover from x et have "exec_ticks (new_calls ?e1 ?e2) = xs" by simp
        moreover from x dt have "data_ticks (new_calls ?e1 ?e2) = xs" by simp
        ultimately show ?thesis using True s tl by (simp add: 2(2))
      next
        case False
        with m have m1: "\<not> use_ticks ops (world ?e1)" by simp
        from deliveries_loop_steps_bars [OF assms m1, of time_step k start] et
        have "exec_ticks (new_calls ?e1 ?e2) = []" by simp
        then show ?thesis using False s tl by (simp add: 2(2))
      qed
    qed
  qed
  have w: "\<forall>ignored e'.
            run ops start stop time_step fill_model print_log_store run_started wall_now e
              = Some (ignored, e') \<longrightarrow>
            (if use_ticks ops (world e)
             then exec_bars (new_calls e e') = [] \<and>
                  exec_ticks (new_calls e e') = data_ticks (new_calls e e')
             else exec_ticks (new_calls e e') = [])"
    by (intro allI impI) (rule whole)
  have h: "logger (backtest_header ops run_started start stop time_step e)
           = logger e @ [BacktestHeader run_started start stop time_step
                           (if use_ticks ops (world e) then ''TICKS'' else ''1-MINUTE BARS'')]"
    by (simp add: backtest_header_def)
  show ?thesis
    by (intro conjI deliveries_loop_body [OF assms] loop_body_mode [OF assms] w h)
qed

theorem execution_resolution_respected_witness:
  "mode_fixed (sample_collaborators True) \<and> mode_fixed (sample_collaborators False) \<and>
   exec_ticks (new_calls (sample_engine True)
      (loop_body (sample_collaborators True) 60 (sample_engine True))) = [60] \<and>
   exec_bars (new_calls (sample_engine True)
      (loop_body (sample_collaborators True) 60 (sample_engine True))) = [] \<and>
   data_ticks (new_calls (sample_engine True)
      (loop_body (sample_collaborators True) 60 (sample_engine True))) = [60] \<and>
   exec_ticks (new_calls (sample_engine False)
      (loop_body (sample_collaborators False) 60 (sample_engine False))) = [] \<and>
   exec_bars (new_calls (sample_engine False)
      (loop_body (sample_collaborators False) 60 (sample_engine False))) = [(''AUDUSD'', 60, 61)] \<and>
   data_ticks (new_calls (sample_engine False)
      (loop_body (sample_collaborators False) 60 (sample_engine False))) = [60]"
  using execution_resolution_respected [of "sample_collaborators True" "sample_engine True" 60]
    execution_resolution_respected [of "sample_collaborators False" "sample_engine False" 60]
  by simp

text \<open>
  Claim C7, as amended. The data client, the execution client, the portfolio and the
  trader are built with the engine's one test clock (a \<^verbatim>\<open>TestClock\<close>, not the wall
  clock), and the setup of a run leaves that so. Every registered strategy is instead
  given a \<^verbatim>\<open>TestClock\<close> object of its own, by the constructor and again by every run
  setup: the \<open>i\<close>-th strategy holds the clock made \<open>i + 1\<close> clocks after the engine's,
  so it is never the engine's test clock, never the clock of another strategy, and never
  a wall clock.
\<close>

theorem clocks_of_components:
  assumes "e = engine_init ops insts strats fill_model cfg wall_created wall_set wall_done w0"
    and "e1 = run_setup ops start stop time_step fm run_started e"
    and "distinct strats" and "distinct (strategies_at_setup ops start fm e)"
  shows "clock e = LiveClockRef 0 \<and> test_clock e = TestClockRef 0 \<and>
         clock_of e DataClientC = Some (test_clock e) \<and>
         clock_of e ExecClientC = Some (test_clock e) \<and>
         clock_of e PortfolioC = Some (test_clock e) \<and>
         clock_of e TraderC = Some (test_clock e) \<and>
         (\<forall>i<length strats. clock_of e (StrategyC (strats ! i)) = Some (TestClockRef (Suc i))) \<and>
         test_clock e1 = TestClockRef 0 \<and>
         clock_of e1 DataClientC = Some (test_clock e1) \<and>
         clock_of e1 ExecClientC = Some (test_clock e1) \<and>
         clock_of e1 PortfolioC = Some (test_clock e1) \<and>
         clock_of e1 TraderC = Some (test_clock e1) \<and>
         (\<forall>i<length (strategies_at_setup ops start fm e).
            clock_of e1 (StrategyC (strategies_at_setup ops start fm e ! i))
            = Some (TestClockRef (Suc (length strats) + i)))"
proof -
  have c: "clock e = LiveClockRef 0" by (simp add: assms(1))
  have other: "clock_of e c = Some (TestClockRef 0)"
    if "c \<in> {DataClientC, ExecClientC, PortfolioC, TraderC}" for c
    using that unfolding assms(1) by (subst engine_init_clock_of) auto
  have other1: "clock_of e1 c = Some (TestClockRef 0)"
    if "c \<in> {DataClientC, ExecClientC, PortfolioC, TraderC}" for c
    using that other [OF that] unfolding assms(2) by (subst run_setup_clock_other) auto
  have s: "\<forall>i<length strats. clock_of e (StrategyC (strats ! i)) = Some (TestClockRef (Suc i))"
    by (simp add: assms(1) engine_init_strategy_clock [OF assms(3)])
  have s1: "\<forall>i<length (strategies_at_setup ops start fm e).
            clock_of e1 (StrategyC (strategies_at_setup ops start fm e ! i))
            = Some (TestClockRef (Suc (length strats) + i))"
    using run_setup_strategy_clock [OF assms(4), of _ stop time_step run_started]
    by (simp add: assms(2)) (simp add: assms(1))
  have t: "test_clock e = TestClockRef 0" "test_clock e1 = TestClockRef 0"
    by (simp_all add: assms(1,2))
  show ?thesis using c other other1 s s1 t by simp
qed

theorem clocks_of_components_witness:
  "distinct [0, 1 :: nat] \<and>
   distinct (strategies_at_setup (sample_collaborators True) 0 None (sample_engine True)) \<and>
   clock_of (sample_engine True) DataClientC = Some (TestClockRef 0) \<and>
   clock_of (sample_engine True) ExecClientC = Some (TestClockRef 0) \<and>
   clock_of (sample_engine True) (StrategyC 1) = Some (TestClockRef 2) \<and>
   clock_of (run_setup (sample_collaborators True) 0 120 60 None 2000 (sample_engine True))
     (StrategyC 1) = Some (TestClockRef 4) \<and>
   clock_of (run_setup (sample_collaborators True) 0 120 60 None 2000 (sample_engine True))
     TraderC = Some (TestClockRef 0)"
proof -
  have e: "sample_engine True = engine_init (sample_collaborators True) [''AUDUSD''] [0, 1] 0
             sample_config 1000 1000 1001 (0, 0)"
    by (simp add: sample_engine_def)
  note w = clocks_of_components [OF e refl, where start = 0 and fm = None and stop = 120
      and time_step = 60 and run_started = 2000]
  have d: "distinct [0, 1 :: nat]"
    "distinct (strategies_at_setup (sample_collaborators True) 0 None (sample_engine True))"
    by simp_all
  from w [OF d] have
    "clock_of (sample_engine True) DataClientC = Some (TestClockRef 0)"
    "clock_of (sample_engine True) ExecClientC = Some (TestClockRef 0)"
    "clock_of (run_setup (sample_collaborators True) 0 120 60 None 2000 (sample_engine True))
       TraderC = Some (TestClockRef 0)"
    and a: "\<forall>i<length [0, 1 :: nat]. clock_of (sample_engine True) (StrategyC ([0, 1] ! i))
              = Some (TestClockRef (Suc i))"
    and b: "\<forall>i<length [0, 1 :: nat].
              clock_of (run_setup (sample_collaborators True) 0 120 60 None 2000 (sample_engine True))
                (StrategyC ([0, 1] ! i)) = Some (TestClockRef (Suc (length [0, 1 :: nat]) + i))"
    by simp_all
  moreover from a [THEN spec, of 1] b [THEN spec, of 1] have
    "clock_of (sample_engine True) (StrategyC 1) = Some (TestClockRef 2)"
    "clock_of (run_setup (sample_collaborators True) 0 120 60 None 2000 (sample_engine True))
       (StrategyC 1) = Some (TestClockRef 4)"
    by (simp_all add: numeral_2_eq_2 eval_nat_numeral)
  ultimately show ?thesis using d by simp
qed

text \<open>
  Claim C7 as stated fails: after construction the first strategy holds the clock
  object made after the engine's test clock, not the engine's test clock.
\<close>

theorem strategy_clock_is_its_own:
  "test_clock (sample_engine True) = TestClockRef 0 \<and>
   clock_of (sample_engine True) (StrategyC 0) = Some (TestClockRef 1) \<and>
   clock_of (sample_engine True) DataClientC = Some (TestClockRef 0)"
  using engine_init_strategy_clock [of "[0, 1]" 0 "sample_collaborators True" "[''AUDUSD'']" 0
      sample_config 1000 1000 1001 "(0, 0)"]
    engine_init_clock_of [of DataClientC "[0, 1]" "sample_collaborators True" "[''AUDUSD'']" 0
      sample_config 1000 1000 1001 "(0, 0)"]
  by (simp add: sample_engine_def)

text \<open>
  Claim C8, as amended. A call of \<^verbatim>\<open>run\<close> that passes the three preconditions and
  the two assertions, with a time step greater than zero (\<open>start\<close> and \<open>stop\<close> being
  datetimes), returns, and its main loop makes \<open>(stop - start) div time_step + 1\<close>
  passes, at the step boundaries \<open>start\<close>, \<open>start + time_step\<close>, ..., the last of them at
  or before \<open>stop\<close> and the next one past \<open>stop\<close>. (A pass is counted by its one call of
  \<^verbatim>\<open>iterate_bars\<close>.) When that next boundary is still a datetime, all statements of
  \<^verbatim>\<open>run\<close> are executed: every pass is counted in \<open>iteration\<close> and \<^verbatim>\<open>trader.stop()\<close> is
  called. When it lies past \<^verbatim>\<open>datetime.max\<close>, the addition at the end of the last pass
  raises \<^verbatim>\<open>OverflowError\<close>, which ends the call there: the last pass is not counted and
  \<^verbatim>\<open>trader.stop()\<close> is not called.
\<close>

theorem run_terminates:
  assumes "run_accepts ops start stop e"
    and "clocks_at_start ops start stop time_step fill_model run_started e"
    and "0 < time_step" and "valid_datetime start" and "valid_datetime stop"
  shows "\<exists>ignored e'.
           run ops start stop time_step fill_model print_log_store run_started wall_now e
             = Some (ignored, e') \<and>
           loop_passes (new_calls e e') = nat ((stop - start) div time_step + 1) \<and>
           step_boundaries (new_calls e e')
             = map (\<lambda>i. start + int i * time_step)
                 [0..<nat ((stop - start) div time_step + 1)] \<and>
           start + ((stop - start) div time_step) * time_step \<le> stop \<and>
           stop < start + ((stop - start) div time_step + 1) * time_step \<and>
           ignored = (if start + ((stop - start) div time_step + 1) * time_step \<le> datetime_max
                      then None else Some OverflowError) \<and>
           iteration e'
             = iteration e + of_nat (if ignored = None
                                     then nat ((stop - start) div time_step + 1)
                                     else nat ((stop - start) div time_step)) \<and>
           (TraderStop \<in> set (new_calls e e')) = (ignored = None)"
proof -
  have lt: "start < stop" using assms(1) by (simp add: run_accepts_def Let_def)
  have v: "0 \<le> start" "stop \<le> datetime_max" using assms(4,5) by (simp_all add: valid_datetime_def)
  from run_forward [OF assms(1-3) v, of print_log_store wall_now]
  obtain x e' xs where r:
    "run ops start stop time_step fill_model print_log_store run_started wall_now e
       = Some (x, e')"
    "x = (if start + int (passes_due stop time_step start) * time_step \<le> datetime_max
          then None else Some OverflowError)"
    "calls e' = calls e @ xs"
    "step_boundaries xs
       = map (\<lambda>i. start + int i * time_step) [0..<passes_due stop time_step start]"
    "iteration e'
       = iteration e + of_nat (if x = None then passes_due stop time_step start
                               else passes_due stop time_step start - 1)"
    "(TraderStop \<in> set xs) = (x = None)"
    by (elim exE conjE) (rule that)
  have q: "0 \<le> (stop - start) div time_step"
    using lt assms(3) by (simp add: pos_imp_zdiv_nonneg_iff)
  have n: "passes_due stop time_step start = nat ((stop - start) div time_step + 1)"
    using lt assms(3) by (rule passes_due_start)
  have n1: "nat ((stop - start) div time_step + 1) - 1 = nat ((stop - start) div time_step)"
    using q by simp
  have ni: "int (passes_due stop time_step start) = (stop - start) div time_step + 1"
    using lt assms(3) by (rule passes_due_start_int)
  have new: "new_calls e e' = xs" using r(3) by (rule new_calls_append)
  have "loop_passes (new_calls e e') = nat ((stop - start) div time_step + 1)"
    using r(4) n by (simp add: loop_passes_def new)
  moreover have "step_boundaries (new_calls e e')
      = map (\<lambda>i. start + int i * time_step) [0..<nat ((stop - start) div time_step + 1)]"
    using r(4) n by (simp add: new)
  moreover have "start + ((stop - start) div time_step) * time_step \<le> stop \<and>
      stop < start + ((stop - start) div time_step + 1) * time_step"
  proof -
    define q r where "q = (stop - start) div time_step" and "r = (stop - start) mod time_step"
    have "stop - start = q * time_step + r" by (simp add: q_def r_def)
    moreover have "0 \<le> r" "r < time_step" using assms(3) by (simp_all add: r_def)
    ultimately have "start + q * time_step \<le> stop \<and> stop < start + (q + 1) * time_step"
      by (simp add: algebra_simps)
    then show ?thesis by (simp add: q_def)
  qed
  moreover have "x = (if start + ((stop - start) div time_step + 1) * time_step \<le> datetime_max
                      then None else Some OverflowError)"
    using r(2) unfolding ni .
  moreover have "iteration e'
             = iteration e + of_nat (if x = None
                                     then nat ((stop - start) div time_step + 1)
                                     else nat ((stop - start) div time_step))"
    using r(5) unfolding n n1 .
  moreover have "(TraderStop \<in> set (new_calls e e')) = (x = None)"
    unfolding new by (rule r(6))
  ultimately show ?thesis using r(1) by (intro exI [of _ x] exI [of _ e']) simp
qed

theorem run_terminates_witness:
  "run_accepts (sample_collaborators True) 0 120 (sample_engine True) \<and>
   clocks_at_start (sample_collaborators True) 0 120 60 None 2000 (sample_engine True) \<and>
   clocks_at_start (sample_collaborators True) 0 120 (datetime_max + 1) None 2000
     (sample_engine True) \<and>
   (0::int) < 60 \<and> 0 < datetime_max + 1 \<and> valid_datetime 0 \<and> valid_datetime 120 \<and>
   (\<exists>e'. run (sample_collaborators True) 0 120 60 None True 2000 2001 (sample_engine True)
            = Some (None, e') \<and>
          loop_passes (new_calls (sample_engine True) e') = 3 \<and>
          step_boundaries (new_calls (sample_engine True) e') = [0, 60, 120] \<and>
          iteration e' = 3 \<and>
          TraderStop \<in> set (new_calls (sample_engine True) e')) \<and>
   (\<exists>e'. run (sample_collaborators True) 0 120 (datetime_max + 1) None True 2000 2001
            (sample_engine True)
            = Some (Some OverflowError, e') \<and>
          loop_passes (new_calls (sample_engine True) e') = 1 \<and>
          step_boundaries (new_calls (sample_engine True) e') = [0] \<and>
          iteration e' = 0 \<and>
          TraderStop \<notin> set (new_calls (sample_engine True) e'))"
proof -
  have a: "map (\<lambda>i. 0 + int i * 60) [0..<nat ((120 - 0) div 60 + 1)] = [0, 60, 120]"
    by (simp add: upt_rec)
  have b: "(0::int) + ((120 - 0) div 60 + 1) * 60 \<le> datetime_max"
    by (simp add: datetime_max_def)
  have c: "(120 - 0) div (datetime_max + 1) = 0" "(0::int) < datetime_max + 1"
    by (simp_all add: datetime_max_def)
  have i: "iteration (sample_engine True) = 0" by (simp add: sample_engine_def)
  from run_terminates [of "sample_collaborators True" 0 120 "sample_engine True" 60
        None 2000 True 2001] a b i
  have first: "\<exists>e'. run (sample_collaborators True) 0 120 60 None True 2000 2001
            (sample_engine True) = Some (None, e') \<and>
          loop_passes (new_calls (sample_engine True) e') = 3 \<and>
          step_boundaries (new_calls (sample_engine True) e') = [0, 60, 120] \<and>
          iteration e' = 3 \<and>
          TraderStop \<in> set (new_calls (sample_engine True) e')"
    by auto
  from run_terminates [of "sample_collaborators True" 0 120 "sample_engine True"
        "datetime_max + 1" None 2000 True 2001] c i
  have second: "\<exists>e'. run (sample_collaborators True) 0 120 (datetime_max + 1) None True 2000
            2001 (sample_engine True) = Some (Some OverflowError, e') \<and>
          loop_passes (new_calls (sample_engine True) e') = 1 \<and>
          step_boundaries (new_calls (sample_engine True) e') = [0] \<and>
          iteration e' = 0 \<and>
          TraderStop \<notin> set (new_calls (sample_engine True) e')"
    by auto
  from first second c(2) show ?thesis by simp
qed

text \<open>
  Claim C8 as stated fails for a time step that is not positive. Both calls below pass
  the preconditions and the assertions of \<^verbatim>\<open>run\<close>. The first, with a step of zero, never
  returns. The second, with a step of \<open>- 60\<close>, makes one pass and ends in the
  \<^verbatim>\<open>OverflowError\<close> of \<^verbatim>\<open>time += time_step\<close>, where the formula of the claim gives
  \<open>(120 - 0) div (- 60) + 1 = - 1\<close> passes.
\<close>

theorem run_need_not_return:
  "run_accepts (sample_collaborators True) 0 120 (sample_engine True) \<and>
   clocks_at_start (sample_collaborators True) 0 120 0 None 2000 (sample_engine True) \<and>
   clocks_at_start (sample_collaborators True) 0 120 (- 60) None 2000 (sample_engine True) \<and>
   run (sample_collaborators True) 0 120 0 None True 2000 2001 (sample_engine True) = None \<and>
   map_option (\<lambda>r. (fst r, loop_passes (new_calls (sample_engine True) (snd r))))
     (run (sample_collaborators True) 0 120 (- 60) None True 2000 2001 (sample_engine True))
   = Some (Some OverflowError, 1)"
proof -
  let ?ops = "sample_collaborators True"
  let ?e = "sample_engine True"
  let ?e1 = "run_setup ?ops 0 120 (- 60) None 2000 ?e"
  have z: "run ?ops 0 120 0 None True 2000 2001 ?e = None"
    by (rule run_diverges) simp_all
  have b: "run ?ops 0 120 (- 60) None True 2000 2001 ?e
           = Some (Some OverflowError, loop_pass ?ops 0 ?e1)"
    using run_backward [of ?ops 0 120 ?e "- 60" None 2000 True 2001] by simp
  have c1: "calls ?e1 = calls ?e @ new_calls ?e ?e1"
    by (simp add: run_setup_calls run_setup_new_calls)
  have "calls (loop_pass ?ops 0 ?e1) = calls (loop_steps ?ops (- 60) 1 0 ?e1)"
    by (simp add: loop_pass_calls)
  also have "\<dots> = calls ?e1 @ new_calls ?e1 (loop_steps ?ops (- 60) 1 0 ?e1)"
    by (rule loop_steps_calls_split)
  finally have "new_calls ?e (loop_pass ?ops 0 ?e1)
        = new_calls ?e ?e1 @ new_calls ?e1 (loop_steps ?ops (- 60) 1 0 ?e1)"
    by (rule new_calls_trans [OF c1])
  then have eq: "new_calls ?e (loop_pass ?ops 0 ?e1)
        = new_calls ?e ?e1 @ new_calls ?e1 (loop_steps ?ops (- 60) 1 0 ?e1)" .
  have sa: "step_boundaries (new_calls ?e ?e1) = []" by (simp add: run_setup_new_calls)
  have sb: "step_boundaries (new_calls ?e1 (loop_steps ?ops (- 60) 1 0 ?e1))
            = map (\<lambda>i. 0 + int i * (- 60)) [0..<1]"
    by (rule step_boundaries_new_loop_steps)
  have "loop_passes (new_calls ?e (loop_pass ?ops 0 ?e1)) = 1"
    unfolding loop_passes_def eq step_boundaries_append sa sb by simp
  with z b show ?thesis by simp
qed

text \<open>
  Claim C9. Once a fill has been applied to the portfolio, a fill with the same
  identifier is rejected with \<^verbatim>\<open>DuplicateFill\<close> whenever it is applied again, directly
  or after any number of other \<^verbatim>\<open>apply\<close> calls (accepted or rejected), and the rejected
  call leaves the portfolio (positions, account, applied identifiers) exactly as it found
  it: the fill is booked once.
\<close>

theorem duplicate_fill_rejected:
  assumes "apply_fill p f = Inr p1" and "fill_id f' = fill_id f"
  shows "apply_fill (apply_fills p1 later) f' = Inl (DuplicateFill, apply_fills p1 later) \<and>
         apply_fills p1 (later @ [f']) = apply_fills p1 later"
proof -
  have "fill_id f' \<in> set (applied_fills p1)"
    using apply_fill_records [OF assms(1)] assms(2) by simp
  with apply_fills_keep [of p1 later]
  have "fill_id f' \<in> set (applied_fills (apply_fills p1 later))" by (rule subsetD)
  then have "apply_fill (apply_fills p1 later) f' = Inl (DuplicateFill, apply_fills p1 later)"
    by (simp add: apply_fill_def)
  then show ?thesis by (simp add: apply_fills_snoc)
qed

theorem duplicate_fill_rejected_witness:
  "apply_fill scenario_portfolio scenario_buy = Inr scenario_after_buy \<and>
   fill_id (scenario_buy\<lparr>fill_price := 101\<rparr>) = fill_id scenario_buy \<and>
   apply_fills scenario_after_buy [scenario_sell] = scenario_after_sell \<and>
   apply_fill scenario_after_sell (scenario_buy\<lparr>fill_price := 101\<rparr>)
     = Inl (DuplicateFill, scenario_after_sell) \<and>
   apply_fills scenario_after_buy [scenario_sell, scenario_buy\<lparr>fill_price := 101\<rparr>]
     = scenario_after_sell"
  using duplicate_fill_rejected [OF scenario_A, of "scenario_buy\<lparr>fill_price := 101\<rparr>"
      "[scenario_sell]"] scenario_A scenario_B
  by simp

text \<open>
  Claim C10. After a successful call of \<^verbatim>\<open>run\<close> (one whose statements all ran: it
  returned and no exception was raised in it), \<open>iteration\<close> is its value before the call
  plus the number of passes the main loop made: in the arithmetic of the 32-bit counter
  always, and as integers whenever the sum stays below \<open>2^31\<close>. \<^verbatim>\<open>reset\<close> sets it to
  zero; \<^verbatim>\<open>change_strategies\<close> and \<^verbatim>\<open>dispose\<close> leave it as it is.
\<close>

theorem iteration_counts_passes:
  assumes "run ops start stop time_step fill_model print_log_store run_started wall_now e
           = Some (None, e')"
  shows "iteration e' = iteration e + of_nat (loop_passes (new_calls e e')) \<and>
         (sint (iteration e) + int (loop_passes (new_calls e e')) < 2 ^ 31 \<longrightarrow>
          sint (iteration e') = sint (iteration e) + int (loop_passes (new_calls e e'))) \<and>
         iteration (reset ops e') = 0 \<and>
         iteration (change_strategies ops strats e') = iteration e' \<and>
         iteration (dispose ops e') = iteration e'"
proof -
  have w: "iteration e' = iteration e + of_nat (loop_passes (new_calls e e'))"
    by (simp add: run_completed_passes(2,3) [OF assms])
  have "sint (iteration e') = sint (iteration e) + int (loop_passes (new_calls e e'))"
    if "sint (iteration e) + int (loop_passes (new_calls e e')) < 2 ^ 31"
    by (subst w) (rule sint_add_of_nat [OF that])
  with w show ?thesis by (simp add: change_strategies_def dispose_def)
qed

theorem iteration_counts_passes_witness:
  "\<exists>e'. run (sample_collaborators True) 0 120 60 None True 2000 2001 (sample_engine True)
           = Some (None, e') \<and>
         loop_passes (new_calls (sample_engine True) e') = 3 \<and>
         iteration e' = 3 \<and> sint (iteration e') = 3 \<and>
         iteration (reset (sample_collaborators True) e') = 0"
proof -
  from sample_run_returns [of True] obtain e' where
    r: "run (sample_collaborators True) 0 120 60 None True 2000 2001 (sample_engine True)
          = Some (None, e')" ..
  have n: "loop_passes (new_calls (sample_engine True) e') = 3"
    by (simp add: run_completed_passes(2) [OF r])
  have i: "iteration (sample_engine True) = 0" by (simp add: sample_engine_def)
  from iteration_counts_passes [OF r] n i r show ?thesis by auto
qed

end
